theory Spec2Isabelle
  imports Complex_Main "HOL-Library.Log_Nat"
begin

section \<open>Python values\<close>

text \<open>
  A Python \<open>str\<close> is a sequence of Unicode code points; \<open>str.strip\<close> and the
  regular expression of \<open>extract_json\<close> work on code points, so a string is modelled as
  the list of its code points. \<open>str\<close> turns an ASCII literal into such a list.
\<close>

type_synonym pystr = "nat list"

definition str :: "string \<Rightarrow> pystr" where
  "str s = map of_char s"

text \<open>
  A Python number is an \<open>int\<close> (unbounded, exact) or a \<open>float\<close>. The type \<open>'f\<close> of
  float objects is left open: it may hold NaN, the infinities and signed zeros, and
  nothing is assumed about it.
\<close>

datatype 'f pynum = PyInt int | PyFloat 'f

text \<open>
  What \<open>json.loads\<close> returns: \<open>None\<close>, \<open>bool\<close>, a number, \<open>str\<close>, \<open>list\<close> or
  \<open>dict\<close>. A \<open>dict\<close> keeps insertion order, so it is an association list (keys distinct
  in every value that \<open>json.loads\<close> builds).
\<close>

datatype 'f json =
    JNull
  | JBool bool
  | JNum "'f pynum"
  | JStr pystr
  | JArr "'f json list"
  | JObj "(pystr \<times> 'f json) list"

datatype pyerror =
  ValueError | JSONDecodeError | TypeError | AttributeError | KeyError | OverflowError

text \<open>
  What \<open>write_to_pdf\<close> uses of the interpreter and of ReportLab without defining it:
  the addition of two floats (rounded as the machine rounds it), the conversion of an
  \<open>int\<close> that fits to a float, the truth value of a float, and the check that
  \<open>Paragraph\<close> makes of its text, which it parses as markup (\<open>None\<close>: the paragraph is
  built; \<open>Some e\<close>: the constructor raises \<open>e\<close>). They are parameters of the model.
\<close>

record 'f pylib =
  float_add :: "'f \<Rightarrow> 'f \<Rightarrow> 'f"
  float_of_int :: "int \<Rightarrow> 'f"
  float_nonzero :: "'f \<Rightarrow> bool"
  paragraph_error :: "pystr \<Rightarrow> pyerror option"

section \<open>\<open>extract_json\<close>\<close>

definition quote1 :: nat where "quote1 = 39"
definition quote2 :: nat where "quote2 = 34"
definition lbrace :: nat where "lbrace = 123"
definition rbrace :: nat where "rbrace = 125"

text \<open>The code points for which \<open>str.isspace\<close> holds: what \<open>strip()\<close> removes.\<close>

definition isspace :: "nat \<Rightarrow> bool" where
  "isspace c \<longleftrightarrow>
     (9 \<le> c \<and> c \<le> 13) \<or> (28 \<le> c \<and> c \<le> 32) \<or> c = 133 \<or> c = 160 \<or> c = 5760 \<or>
     (8192 \<le> c \<and> c \<le> 8202) \<or> c = 8232 \<or> c = 8233 \<or> c = 8239 \<or> c = 8287 \<or> c = 12288"

text \<open>\<open>s.strip(chars)\<close>: drop the characters of the set from both ends.\<close>

definition strip :: "(nat \<Rightarrow> bool) \<Rightarrow> pystr \<Rightarrow> pystr" where
  "strip P s = rev (dropWhile P (rev (dropWhile P s)))"

text \<open>\<open>json_str.strip("'''").strip('"""').strip()\<close>\<close>

definition cleaned :: "pystr \<Rightarrow> pystr" where
  "cleaned json_str = strip isspace (strip (\<lambda>c. c = quote2) (strip (\<lambda>c. c = quote1) json_str))"

text \<open>
  \<open>re.search(r"\{.*\}", cleaned, re.DOTALL)\<close>. \<open>match_at\<close> is the match anchored at
  the start of its argument: a \<open>{\<close>, then the greedy \<open>.*\<close> (any characters, newlines
  too), backtracking to the last \<open>}\<close>. \<open>re_search\<close> tries the start positions from left
  to right and returns the first match.
\<close>

fun match_at :: "pystr \<Rightarrow> pystr option" where
  "match_at [] = None"
| "match_at (c # cs) =
     (if c = lbrace then
        (let body = rev (dropWhile (\<lambda>x. x \<noteq> rbrace) (rev cs))
         in if body = [] then None else Some (c # body))
      else None)"

fun re_search :: "pystr \<Rightarrow> pystr option" where
  "re_search [] = None"
| "re_search (c # cs) =
     (case match_at (c # cs) of Some m \<Rightarrow> Some m | None \<Rightarrow> re_search cs)"

text \<open>
  \<open>json.loads\<close> belongs to the standard library; it is a parameter, \<open>None\<close> standing
  for \<open>json.JSONDecodeError\<close> (a subclass of \<open>ValueError\<close>).
\<close>

definition extract_json :: "(pystr \<Rightarrow> 'f json option) \<Rightarrow> pystr \<Rightarrow> pyerror + 'f json" where
  "extract_json loads json_str =
     (case re_search (cleaned json_str) of
        Some m \<Rightarrow> (case loads m of Some v \<Rightarrow> Inr v | None \<Rightarrow> Inl JSONDecodeError)
      | None \<Rightarrow> Inl ValueError)"

section \<open>Python operations used by \<open>write_to_pdf\<close>\<close>

text \<open>
  An \<open>int\<close> converts to a float when the nearest float is finite, that is below
  \<open>2^1024 - 2^970\<close> in absolute value; otherwise the conversion raises
  \<open>OverflowError\<close>.
\<close>

definition int_fits :: "int \<Rightarrow> bool" where
  "int_fits i \<longleftrightarrow> \<bar>i\<bar> < 2 ^ 1024 - 2 ^ 970"

fun to_float :: "'f pylib \<Rightarrow> 'f pynum \<Rightarrow> pyerror + 'f" where
  "to_float L (PyInt i) = (if int_fits i then Inr (float_of_int L i) else Inl OverflowError)"
| "to_float L (PyFloat x) = Inr x"

text \<open>
  \<open>a + b\<close> on two numbers: exact on two \<open>int\<close>s; otherwise the \<open>int\<close> operand is
  converted and the floats are added.
\<close>

fun py_plus :: "'f pylib \<Rightarrow> 'f pynum \<Rightarrow> 'f pynum \<Rightarrow> pyerror + 'f pynum" where
  "py_plus L (PyInt a) (PyInt b) = Inr (PyInt (a + b))"
| "py_plus L a b =
     (case to_float L a of Inl e \<Rightarrow> Inl e | Inr x \<Rightarrow>
     (case to_float L b of Inl e \<Rightarrow> Inl e | Inr y \<Rightarrow> Inr (PyFloat (float_add L x y))))"

text \<open>\<open>if items:\<close>, the truth value of a Python object.\<close>

fun truthy :: "'f pylib \<Rightarrow> 'f json \<Rightarrow> bool" where
  "truthy L JNull = False"
| "truthy L (JBool b) = b"
| "truthy L (JNum (PyInt i)) = (i \<noteq> 0)"
| "truthy L (JNum (PyFloat x)) = float_nonzero L x"
| "truthy L (JStr s) = (s \<noteq> [])"
| "truthy L (JArr xs) = (xs \<noteq> [])"
| "truthy L (JObj kvs) = (kvs \<noteq> [])"

text \<open>
  \<open>for item in items\<close>: a list gives its elements, a \<open>dict\<close> its keys, a \<open>str\<close> its
  characters; anything else is not iterable.
\<close>

fun py_iter :: "'f json \<Rightarrow> pyerror + 'f json list" where
  "py_iter (JArr xs) = Inr xs"
| "py_iter (JObj kvs) = Inr (map (\<lambda>kv. JStr (fst kv)) kvs)"
| "py_iter (JStr s) = Inr (map (\<lambda>c. JStr [c]) s)"
| "py_iter _ = Inl TypeError"

text \<open>\<open>item.get(key, default)\<close>: only a \<open>dict\<close> has the method.\<close>

fun item_get :: "'f json \<Rightarrow> pystr \<Rightarrow> 'f json \<Rightarrow> pyerror + 'f json" where
  "item_get (JObj kvs) key dflt =
     Inr (case map_of kvs key of Some v \<Rightarrow> v | None \<Rightarrow> dflt)"
| "item_get _ key dflt = Inl AttributeError"

text \<open>
  The cells of a table. \<open>Fmt x\<close> stands for the text \<open>f"{x:,.2f}"\<close> of a number;
  \<open>Val v\<close> is an object stored in a cell as it is.
\<close>

datatype 'f cell = Text pystr | Val "'f json" | Fmt "'f pynum"

text \<open>
  \<open>f"{x:,.2f}"\<close> on a number: a float is formatted; an \<open>int\<close> is converted to a float
  first, which raises \<open>OverflowError\<close> when it does not fit.
\<close>

fun format_num :: "'f pynum \<Rightarrow> pyerror + 'f cell" where
  "format_num (PyInt i) = (if int_fits i then Inr (Fmt (PyInt i)) else Inl OverflowError)"
| "format_num (PyFloat x) = Inr (Fmt (PyFloat x))"

text \<open>
  \<open>f"{amount:,.2f}"\<close> on what \<open>item.get\<close> returned: a \<open>bool\<close> is formatted as the
  integer it is; a \<open>str\<close> raises \<open>ValueError\<close>, and \<open>None\<close>, a list and a \<open>dict\<close>
  raise \<open>TypeError\<close>.
\<close>

fun format_amount :: "'f json \<Rightarrow> pyerror + 'f cell" where
  "format_amount (JNum n) = format_num n"
| "format_amount (JBool b) = Inr (Fmt (PyInt (of_bool b)))"
| "format_amount (JStr s) = Inl ValueError"
| "format_amount _ = Inl TypeError"

text \<open>One step of \<open>sum\<close>: the running number plus the next object.\<close>

fun py_add :: "'f pylib \<Rightarrow> 'f pynum \<Rightarrow> 'f json \<Rightarrow> pyerror + 'f pynum" where
  "py_add L acc (JNum n) = py_plus L acc n"
| "py_add L acc (JBool b) = py_plus L acc (PyInt (of_bool b))"
| "py_add L acc _ = Inl TypeError"

text \<open>\<open>key in data_dict\<close>\<close>

fun contains_str :: "pystr \<Rightarrow> pystr \<Rightarrow> bool" where
  "contains_str [] sub = (sub = [])"
| "contains_str (c # cs) sub = (take (length sub) (c # cs) = sub \<or> contains_str cs sub)"

fun py_contains :: "'f json \<Rightarrow> pystr \<Rightarrow> pyerror + bool" where
  "py_contains (JObj kvs) key = Inr (key \<in> set (map fst kvs))"
| "py_contains (JArr xs) key = Inr (JStr key \<in> set xs)"
| "py_contains (JStr s) key = Inr (contains_str s key)"
| "py_contains _ key = Inl TypeError"

text \<open>\<open>data_dict[key]\<close> with a \<open>str\<close> key\<close>

fun py_getitem :: "'f json \<Rightarrow> pystr \<Rightarrow> pyerror + 'f json" where
  "py_getitem (JObj kvs) key = (case map_of kvs key of Some v \<Rightarrow> Inr v | None \<Rightarrow> Inl KeyError)"
| "py_getitem _ key = Inl TypeError"

text \<open>\<open>section.items()\<close>\<close>

fun py_items :: "'f json \<Rightarrow> pyerror + (pystr \<times> 'f json) list" where
  "py_items (JObj kvs) = Inr kvs"
| "py_items _ = Inl AttributeError"

section \<open>\<open>write_to_pdf\<close>\<close>

text \<open>
  The flowables that \<open>write_to_pdf\<close> appends to \<open>elements\<close>. A paragraph has its text
  and its style, a spacer its width (points) and height (cm), a table its rows and
  which of the two table styles it gets.
\<close>

datatype pstyle = CustomTitle | SectionTitle | SubsectionTitle

datatype tstyle = CategoryTable | TotalBanner

datatype 'f element =
    Paragraph pystr pstyle
  | Spacer rat rat
  | Table "'f cell list list" tstyle
  | PageBreak

text \<open>
  \<open>Paragraph(category, subsection_style)\<close>, whose text comes from the input: the
  constructor parses it and may raise. The title and the two section titles are fixed
  texts without markup; their paragraphs are built as they are.
\<close>

definition category_paragraph :: "'f pylib \<Rightarrow> pystr \<Rightarrow> pstyle \<Rightarrow> pyerror + 'f element" where
  "category_paragraph L text style =
     (case paragraph_error L text of Some e \<Rightarrow> Inl e | None \<Rightarrow> Inr (Paragraph text style))"

definition label_key :: pystr where "label_key = str ''label''"
definition amount_key :: pystr where "amount_key = str ''amount''"

definition header_row :: "'f cell list" where
  "header_row = [Text (str ''Description''), Text (str ''Amount ('' @ [8364] @ str '')'')]"

text \<open>
  \<^verbatim>\<open>label = item.get("label", ""); amount = item.get("amount", 0)\<close>
  \<^verbatim>\<open>table_data.append([label, f"{amount:,.2f}"])\<close>
\<close>

definition item_row :: "'f json \<Rightarrow> pyerror + 'f cell list" where
  "item_row item =
     (case item_get item label_key (JStr []) of Inl e \<Rightarrow> Inl e | Inr label \<Rightarrow>
     (case item_get item amount_key (JNum (PyInt 0)) of Inl e \<Rightarrow> Inl e | Inr amount \<Rightarrow>
     (case format_amount amount of Inl e \<Rightarrow> Inl e | Inr text \<Rightarrow>
        Inr [Val label, text])))"

text \<open>\<open>for item in items: ...\<close>, the rows appended after the header.\<close>

fun table_rows :: "'f json list \<Rightarrow> pyerror + 'f cell list list" where
  "table_rows [] = Inr []"
| "table_rows (item # items) =
     (case item_row item of Inl e \<Rightarrow> Inl e | Inr row \<Rightarrow>
     (case table_rows items of Inl e \<Rightarrow> Inl e | Inr rows \<Rightarrow> Inr (row # rows)))"

text \<open>
  \<open>sum(item.get("amount", 0) for item in items)\<close>, from the running value \<open>acc\<close>:
  \<open>sum\<close> starts at the \<open>int\<close> 0 and adds the values from left to right.
\<close>

fun sum_amounts :: "'f pylib \<Rightarrow> 'f pynum \<Rightarrow> 'f json list \<Rightarrow> pyerror + 'f pynum" where
  "sum_amounts L acc [] = Inr acc"
| "sum_amounts L acc (item # items) =
     (case item_get item amount_key (JNum (PyInt 0)) of Inl e \<Rightarrow> Inl e | Inr amount \<Rightarrow>
     (case py_add L acc amount of Inl e \<Rightarrow> Inl e | Inr acc' \<Rightarrow> sum_amounts L acc' items))"

definition py_sum :: "'f pylib \<Rightarrow> 'f json \<Rightarrow> pyerror + 'f pynum" where
  "py_sum L items =
     (case py_iter items of Inl e \<Rightarrow> Inl e | Inr its \<Rightarrow> sum_amounts L (PyInt 0) its)"

text \<open>
  The first loop over \<open>section.items()\<close>: for a category whose \<open>items\<close> is true, the
  header paragraph, the table (header row, one row per item, subtotal row) and a spacer.
\<close>

fun category_elements :: "'f pylib \<Rightarrow> (pystr \<times> 'f json) list \<Rightarrow> pyerror + 'f element list" where
  "category_elements L [] = Inr []"
| "category_elements L ((category, items) # rest) =
     (if truthy L items then
        (case category_paragraph L category SubsectionTitle of Inl e \<Rightarrow> Inl e | Inr category_header \<Rightarrow>
        (case py_iter items of Inl e \<Rightarrow> Inl e | Inr its \<Rightarrow>
        (case table_rows its of Inl e \<Rightarrow> Inl e | Inr rows \<Rightarrow>
        (case py_sum L items of Inl e \<Rightarrow> Inl e | Inr subtotal \<Rightarrow>
        (case format_num subtotal of Inl e \<Rightarrow> Inl e | Inr subtotal_text \<Rightarrow>
        (case category_elements L rest of Inl e \<Rightarrow> Inl e | Inr els \<Rightarrow>
           Inr (category_header
                # Table (header_row # rows @ [[Text (str ''Subtotal''), subtotal_text]]) CategoryTable
                # Spacer 1 (3 / 10)
                # els)))))))
      else category_elements L rest)"

text \<open>The second loop: \<open>total += sum(item.get("amount", 0) for item in items)\<close>.\<close>

fun section_total :: "'f pylib \<Rightarrow> 'f pynum \<Rightarrow> (pystr \<times> 'f json) list \<Rightarrow> pyerror + 'f pynum" where
  "section_total L tot [] = Inr tot"
| "section_total L tot ((category, items) # rest) =
     (case py_sum L items of Inl e \<Rightarrow> Inl e | Inr s \<Rightarrow>
     (case py_plus L tot s of Inl e \<Rightarrow> Inl e | Inr tot' \<Rightarrow> section_total L tot' rest))"

text \<open>
  The body of \<open>if "ATTIVO" in data_dict:\<close> and of \<open>if "PASSIVO" in data_dict:\<close>; the two
  differ in the section title and in the label of the total banner only.
\<close>

definition section_elements ::
  "'f pylib \<Rightarrow> pystr \<Rightarrow> pystr \<Rightarrow> 'f json \<Rightarrow> pyerror + 'f element list" where
  "section_elements L title total_label section =
     (case py_items section of Inl e \<Rightarrow> Inl e | Inr cats \<Rightarrow>
     (case category_elements L cats of Inl e \<Rightarrow> Inl e | Inr els \<Rightarrow>
     (case section_total L (PyInt 0) cats of Inl e \<Rightarrow> Inl e | Inr tot \<Rightarrow>
     (case format_num tot of Inl e \<Rightarrow> Inl e | Inr total_text \<Rightarrow>
        Inr (Paragraph title SectionTitle # els
             @ [Table [[Text total_label, total_text]] TotalBanner])))))"

definition optional_section ::
  "'f pylib \<Rightarrow> pystr \<Rightarrow> pystr \<Rightarrow> pystr \<Rightarrow> 'f json \<Rightarrow> pyerror + 'f element list" where
  "optional_section L key title total_label data_dict =
     (case py_contains data_dict key of Inl e \<Rightarrow> Inl e | Inr present \<Rightarrow>
      if present then
        (case py_getitem data_dict key of Inl e \<Rightarrow> Inl e | Inr section \<Rightarrow>
           section_elements L title total_label section)
      else Inr [])"

definition ATTIVO :: pystr where "ATTIVO = str ''ATTIVO''"
definition PASSIVO :: pystr where "PASSIVO = str ''PASSIVO''"

definition title_elements :: "'f element list" where
  "title_elements =
     [Paragraph (str ''Reclassified Balance Sheet - Article 2424 CEE'') CustomTitle,
      Spacer 1 (1 / 2)]"

text \<open>
  \<open>write_to_pdf\<close> returns the list \<open>elements\<close> that it hands to \<open>doc.build\<close>, or the
  exception raised on the way. What \<open>doc.build\<close> does with the list (laying out and
  writing the file) is outside the model.
\<close>

definition write_to_pdf :: "'f pylib \<Rightarrow> 'f json \<Rightarrow> pyerror + 'f element list" where
  "write_to_pdf L data_dict =
     (case optional_section L ATTIVO (str ''ATTIVO (Assets)'') (str ''TOTAL ATTIVO'') data_dict of
        Inl e \<Rightarrow> Inl e
      | Inr attivo \<Rightarrow>
     (case optional_section L PASSIVO (str ''PASSIVO (Liabilities & Equity)'')
             (str ''TOTAL PASSIVO'') data_dict of
        Inl e \<Rightarrow> Inl e
      | Inr passivo \<Rightarrow> Inr (title_elements @ attivo @ [PageBreak] @ passivo)))"

text \<open>
  The conversion as \<open>upload_file\<close> and the script's main block run it, on the text that the
  generation service returned: \<open>write_to_pdf(extract_json(result_json), pdf_path)\<close>.
\<close>

definition convert ::
  "'f pylib \<Rightarrow> (pystr \<Rightarrow> 'f json option) \<Rightarrow> pystr \<Rightarrow> pyerror + 'f element list" where
  "convert L loads result_json =
     (case extract_json loads result_json of
        Inl e \<Rightarrow> Inl e
      | Inr data_dict \<Rightarrow> write_to_pdf L data_dict)"

section \<open>The report that \<open>write_to_pdf\<close> builds\<close>

text \<open>
  A line item's label and amount, with the defaults for a missing field. In Python a
  \<open>bool\<close> is the integer 0 or 1.
\<close>

fun item_label :: "'f json \<Rightarrow> 'f json" where
  "item_label (JObj kvs) = (case map_of kvs label_key of Some v \<Rightarrow> v | None \<Rightarrow> JStr [])"
| "item_label _ = JStr []"

fun amount_value :: "'f json \<Rightarrow> 'f pynum" where
  "amount_value (JNum n) = n"
| "amount_value (JBool b) = PyInt (of_bool b)"
| "amount_value _ = PyInt 0"

fun item_amount :: "'f json \<Rightarrow> 'f pynum" where
  "item_amount (JObj kvs) =
     (case map_of kvs amount_key of Some v \<Rightarrow> amount_value v | None \<Rightarrow> PyInt 0)"
| "item_amount _ = PyInt 0"

fun line_items :: "'f json \<Rightarrow> 'f json list" where
  "line_items (JArr xs) = xs"
| "line_items _ = []"

text \<open>
  The value of \<open>a + b\<close> when it raises nothing, and the sum that Python computes from
  it: from the \<open>int\<close> 0, one addition per number, from left to right. With floats
  every addition rounds.
\<close>

fun as_float :: "'f pylib \<Rightarrow> 'f pynum \<Rightarrow> 'f" where
  "as_float L (PyInt i) = float_of_int L i"
| "as_float L (PyFloat x) = x"

fun num_plus :: "'f pylib \<Rightarrow> 'f pynum \<Rightarrow> 'f pynum \<Rightarrow> 'f pynum" where
  "num_plus L (PyInt a) (PyInt b) = PyInt (a + b)"
| "num_plus L a b = PyFloat (float_add L (as_float L a) (as_float L b))"

definition left_sum :: "'f pylib \<Rightarrow> 'f pynum list \<Rightarrow> 'f pynum" where
  "left_sum L xs = foldl (num_plus L) (PyInt 0) xs"

definition subtotal :: "'f pylib \<Rightarrow> 'f json \<Rightarrow> 'f pynum" where
  "subtotal L items = left_sum L (map item_amount (line_items items))"

definition total_of :: "'f pylib \<Rightarrow> (pystr \<times> 'f json) list \<Rightarrow> 'f pynum" where
  "total_of L cats = left_sum L (map (\<lambda>c. subtotal L (snd c)) cats)"

text \<open>
  The layout: per category with at least one item, a header line, the table with one
  row per item and the subtotal row, a spacer; after the categories of a section, the
  total banner; the page break between the two sections.
\<close>

definition category_block :: "'f pylib \<Rightarrow> pystr \<times> 'f json \<Rightarrow> 'f element list" where
  "category_block L c =
     [Paragraph (fst c) SubsectionTitle,
      Table (header_row
             # map (\<lambda>item. [Val (item_label item), Fmt (item_amount item)]) (line_items (snd c))
             @ [[Text (str ''Subtotal''), Fmt (subtotal L (snd c))]]) CategoryTable,
      Spacer 1 (3 / 10)]"

definition expected_section ::
  "'f pylib \<Rightarrow> pystr \<Rightarrow> pystr \<Rightarrow> (pystr \<times> 'f json) list \<Rightarrow> 'f element list" where
  "expected_section L title total_label cats =
     Paragraph title SectionTitle
     # concat (map (category_block L) (filter (\<lambda>c. line_items (snd c) \<noteq> []) cats))
     @ [Table [[Text total_label, Fmt (total_of L cats)]] TotalBanner]"

fun expected_optional ::
  "'f pylib \<Rightarrow> pystr \<Rightarrow> pystr \<Rightarrow> pystr \<Rightarrow> 'f json \<Rightarrow> 'f element list" where
  "expected_optional L key title total_label (JObj sections) =
     (case map_of sections key of
        Some (JObj cats) \<Rightarrow> expected_section L title total_label cats
      | _ \<Rightarrow> [])"
| "expected_optional L key title total_label _ = []"

definition expected_report :: "'f pylib \<Rightarrow> 'f json \<Rightarrow> 'f element list" where
  "expected_report L data_dict =
     title_elements
     @ expected_optional L ATTIVO (str ''ATTIVO (Assets)'') (str ''TOTAL ATTIVO'') data_dict
     @ [PageBreak]
     @ expected_optional L PASSIVO (str ''PASSIVO (Liabilities & Equity)'') (str ''TOTAL PASSIVO'')
         data_dict"

text \<open>The amounts that \<open>f"{amount:,.2f}"\<close> accepts: a number or a \<open>bool\<close>.\<close>

fun numeric :: "'f json \<Rightarrow> bool" where
  "numeric (JNum n) = True"
| "numeric (JBool b) = True"
| "numeric _ = False"

section \<open>The negative zero\<close>

text \<open>
  Adding the \<open>int\<close> 0 to a float gives the same float, except for the negative zero,
  which becomes the positive one. Two facts of IEEE 754 addition (rounding to nearest)
  keep the negative zero out of every running total that starts at the \<open>int\<close> 0: no
  \<open>int\<close> converts to it, and a sum is the negative zero only if both its terms are.
  \<open>zero_neutral L x\<close> says that \<open>x + 0\<close> is \<open>x\<close>; \<open>ieee_zero\<close> states the two facts.
\<close>

definition zero_neutral :: "'f pylib \<Rightarrow> 'f \<Rightarrow> bool" where
  "zero_neutral L x \<longleftrightarrow> float_add L x (float_of_int L 0) = x"

definition ieee_zero :: "'f pylib \<Rightarrow> bool" where
  "ieee_zero L \<longleftrightarrow>
     (\<forall>i. zero_neutral L (float_of_int L i))
     \<and> (\<forall>x y. zero_neutral L x \<longrightarrow> zero_neutral L (float_add L x y))"

fun neutral_total :: "'f pylib \<Rightarrow> 'f pynum \<Rightarrow> bool" where
  "neutral_total L (PyInt i) = True"
| "neutral_total L (PyFloat x) = zero_neutral L x"

section \<open>Double-precision arithmetic\<close>

text \<open>
  The floats of CPython are IEEE 754 doubles, and the sum of two doubles is the exact sum
  rounded to the nearest double, ties to the even significand. \<open>round_double\<close> rounds a
  real number to 53 significant bits in that way; it is the machine's rounding for every
  value whose result lies in the normal range (from \<open>2^-1022\<close> up to the largest
  double). \<open>doubles\<close> instantiates the parameters with it, floats being the real numbers
  they denote, and with a \<open>Paragraph\<close> that accepts its text; it is used to evaluate
  \<open>write_to_pdf\<close> on concrete documents whose numbers stay in that range and whose
  category names are plain words.
\<close>

definition round_half_even :: "real \<Rightarrow> int" where
  "round_half_even m =
     (let f = \<lfloor>m\<rfloor>; r = m - of_int f
      in if r < 1 / 2 then f else if 1 / 2 < r then f + 1 else if even f then f else f + 1)"

definition binary_exponent :: "real \<Rightarrow> int" where
  "binary_exponent a =
     (if 1 \<le> a then int (floorlog 2 (nat \<lfloor>a\<rfloor>)) - 1
      else - int (floorlog 2 (nat (\<lceil>1 / a\<rceil> - 1))))"

definition round_double :: "real \<Rightarrow> real" where
  "round_double x =
     (if x = 0 then 0
      else let u = 2 powi (binary_exponent \<bar>x\<bar> - 52)
           in sgn x * of_int (round_half_even (\<bar>x\<bar> / u)) * u)"

definition doubles :: "real pylib" where
  "doubles =
     \<lparr>float_add = (\<lambda>x y. round_double (x + y)),
      float_of_int = (\<lambda>i. round_double (of_int i)),
      float_nonzero = (\<lambda>x. x \<noteq> 0),
      paragraph_error = (\<lambda>text. None)\<rparr>"

section \<open>The span that \<open>extract_json\<close> parses\<close>

lemma re_search_skip: "lbrace \<notin> set pre \<Longrightarrow> re_search (pre @ s) = re_search s"
  by (induction pre) auto

lemma last_rbrace_body:
  "rbrace \<notin> set b \<Longrightarrow>
     rev (dropWhile (\<lambda>x. x \<noteq> rbrace) (rev (body @ rbrace # b))) = body @ [rbrace]"
proof -
  assume "rbrace \<notin> set b"
  then have "dropWhile (\<lambda>x. x \<noteq> rbrace) (rev b @ rbrace # rev body) = rbrace # rev body"
    by (subst dropWhile_append2) auto
  then show ?thesis by simp
qed

lemma match_at_span:
  "rbrace \<notin> set b \<Longrightarrow> match_at (lbrace # body @ rbrace # b) = Some (lbrace # body @ [rbrace])"
  using last_rbrace_body [of b body] by (simp add: Let_def)

lemma re_search_span:
  "lbrace \<notin> set a \<Longrightarrow> rbrace \<notin> set b \<Longrightarrow>
     re_search (a @ lbrace # body @ rbrace # b) = Some (lbrace # body @ [rbrace])"
  using match_at_span [of b body] by (simp add: re_search_skip del: match_at.simps)

lemma match_at_SomeD:
  assumes "match_at t = Some m"
  shows "\<exists>body b. t = lbrace # body @ rbrace # b \<and> rbrace \<notin> set b \<and> m = lbrace # body @ [rbrace]"
proof (cases t)
  case Nil
  with assms show ?thesis by simp
next
  case (Cons c cs)
  with assms have c: "c = lbrace"
    and ne: "dropWhile (\<lambda>x. x \<noteq> rbrace) (rev cs) \<noteq> []"
    and m: "m = c # rev (dropWhile (\<lambda>x. x \<noteq> rbrace) (rev cs))"
    by (auto simp: Let_def split: if_splits)
  from ne obtain y ys where d: "dropWhile (\<lambda>x. x \<noteq> rbrace) (rev cs) = y # ys"
    by (cases "dropWhile (\<lambda>x. x \<noteq> rbrace) (rev cs)") auto
  then have r: "rev cs = takeWhile (\<lambda>x. x \<noteq> rbrace) (rev cs) @ y # ys" and y: "y = rbrace"
    by (auto simp: dropWhile_eq_Cons_conv)
  define tw where "tw = takeWhile (\<lambda>x. x \<noteq> rbrace) (rev cs)"
  have tw: "rbrace \<notin> set tw"
    unfolding tw_def by (auto dest: set_takeWhileD)
  from r have "rev (rev cs) = rev (tw @ y # ys)" unfolding tw_def by simp
  then have cs: "cs = rev ys @ rbrace # rev tw" using y by simp
  show ?thesis
    using Cons c cs tw m d y by (intro exI [of _ "rev ys"] exI [of _ "rev tw"]) simp
qed

lemma match_at_None_lbrace: "match_at (lbrace # cs) = None \<Longrightarrow> rbrace \<notin> set cs"
  by (auto simp: Let_def split: if_splits)

lemma re_search_SomeD:
  "re_search t = Some m \<Longrightarrow>
     \<exists>a body b. t = a @ lbrace # body @ rbrace # b \<and> lbrace \<notin> set a \<and> rbrace \<notin> set b
        \<and> m = lbrace # body @ [rbrace]"
proof (induction t)
  case Nil
  then show ?case by simp
next
  case (Cons c cs)
  show ?case
  proof (cases "match_at (c # cs)")
    case (Some m')
    with Cons.prems have "m' = m" by simp
    with Some match_at_SomeD [of "c # cs" m] obtain body b where
      "c # cs = lbrace # body @ rbrace # b" "rbrace \<notin> set b" "m = lbrace # body @ [rbrace]"
      by blast
    then show ?thesis by (intro exI [of _ "[]"] exI [of _ body] exI [of _ b]) simp
  next
    case None
    with Cons.prems have rs: "re_search cs = Some m" by simp
    from Cons.IH [OF this] obtain a body b where
      d: "cs = a @ lbrace # body @ rbrace # b" "lbrace \<notin> set a" "rbrace \<notin> set b"
         "m = lbrace # body @ [rbrace]"
      by blast
    have "c \<noteq> lbrace"
    proof
      assume "c = lbrace"
      with None have "rbrace \<notin> set cs" by (simp add: match_at_None_lbrace)
      with d(1) show False by simp
    qed
    with d show ?thesis
      by (intro exI [of _ "c # a"] exI [of _ body] exI [of _ b]) simp
  qed
qed

lemma re_search_Some_iff:
  "re_search t = Some m \<longleftrightarrow>
     (\<exists>a body b. t = a @ lbrace # body @ rbrace # b \<and> lbrace \<notin> set a \<and> rbrace \<notin> set b
        \<and> m = lbrace # body @ [rbrace])"
  using re_search_SomeD [of t m] re_search_span by blast

lemma re_search_None_suffix: "re_search (a @ s) = None \<Longrightarrow> re_search s = None"
  by (induction a) (auto split: option.splits)

lemma re_search_lbrace_rbrace: "re_search (lbrace # body @ rbrace # b) \<noteq> None"
  by (auto simp: Let_def)

lemma re_search_None_iff:
  "re_search t = None \<longleftrightarrow> \<not> (\<exists>a body b. t = a @ lbrace # body @ rbrace # b)"
proof
  assume "re_search t = None"
  then show "\<not> (\<exists>a body b. t = a @ lbrace # body @ rbrace # b)"
    using re_search_None_suffix re_search_lbrace_rbrace by blast
next
  show "\<not> (\<exists>a body b. t = a @ lbrace # body @ rbrace # b) \<Longrightarrow> re_search t = None"
    using re_search_SomeD [of t] by (cases "re_search t") auto
qed

text \<open>Stripping characters other than the braces from the ends changes no match.\<close>

lemma re_search_dropWhile:
  "\<not> P lbrace \<Longrightarrow> re_search (dropWhile P s) = re_search s"
  by (induction s) auto

lemma match_at_snoc:
  "c \<noteq> rbrace \<Longrightarrow> c \<noteq> lbrace \<Longrightarrow> match_at (s @ [c]) = match_at s"
  by (cases s) (auto simp: Let_def)

lemma re_search_snoc:
  "c \<noteq> rbrace \<Longrightarrow> c \<noteq> lbrace \<Longrightarrow> re_search (s @ [c]) = re_search s"
proof (induction s)
  case Nil
  then show ?case by simp
next
  case (Cons x xs)
  then show ?case
    using match_at_snoc [of c "x # xs"] by (simp del: match_at.simps split: option.splits)
qed

lemma re_search_drop_trailing:
  "\<not> P lbrace \<Longrightarrow> \<not> P rbrace \<Longrightarrow> re_search (rev (dropWhile P (rev s))) = re_search s"
proof (induction s rule: rev_induct)
  case Nil
  then show ?case by simp
next
  case (snoc x xs)
  show ?case
  proof (cases "P x")
    case True
    with snoc.prems have "x \<noteq> rbrace" "x \<noteq> lbrace" by auto
    with True snoc show ?thesis by (simp add: re_search_snoc)
  next
    case False
    then show ?thesis by simp
  qed
qed

lemma re_search_strip:
  "\<not> P lbrace \<Longrightarrow> \<not> P rbrace \<Longrightarrow> re_search (strip P s) = re_search s"
  by (simp add: strip_def re_search_drop_trailing re_search_dropWhile)

lemma isspace_braces: "\<not> isspace lbrace" "\<not> isspace rbrace"
  by (simp_all add: isspace_def lbrace_def rbrace_def)

lemma quote_braces: "lbrace \<noteq> quote1" "rbrace \<noteq> quote1" "lbrace \<noteq> quote2" "rbrace \<noteq> quote2"
  by (simp_all add: quote1_def quote2_def lbrace_def rbrace_def)

lemma re_search_cleaned: "re_search (cleaned s) = re_search s"
  by (simp add: cleaned_def re_search_strip isspace_braces quote_braces)

lemma extract_json_span:
  "lbrace \<notin> set a \<Longrightarrow> rbrace \<notin> set b \<Longrightarrow>
     extract_json loads (a @ lbrace # body @ rbrace # b) =
       (case loads (lbrace # body @ [rbrace]) of Some v \<Rightarrow> Inr v | None \<Rightarrow> Inl JSONDecodeError)"
  by (simp add: extract_json_def re_search_cleaned re_search_span)

section \<open>What \<open>write_to_pdf\<close> builds when it raises nothing\<close>

lemma int_fits_0: "int_fits 0"
  by (simp add: int_fits_def)

lemma format_num_Inr: "format_num n = Inr c \<Longrightarrow> c = Fmt n"
  by (cases n) (auto split: if_splits)

lemma py_plus_Inr: "py_plus L a b = Inr r \<Longrightarrow> r = num_plus L a b"
  by (cases a; cases b) (auto split: if_splits)

lemma format_amount_Inr: "format_amount v = Inr c \<Longrightarrow> c = Fmt (amount_value v) \<and> numeric v"
  by (cases v) (auto dest: format_num_Inr)

lemma item_row_Inr:
  "item_row item = Inr row \<Longrightarrow> row = [Val (item_label item), Fmt (item_amount item)]"
proof (cases item)
  case (JObj kvs)
  assume "item_row item = Inr row"
  with JObj show ?thesis
    by (cases "map_of kvs amount_key"; cases "map_of kvs label_key")
       (auto simp: item_row_def int_fits_0 split: sum.splits dest: format_amount_Inr)
qed (auto simp: item_row_def)

lemma item_row_is_dict: "item_row item = Inr row \<Longrightarrow> \<exists>kvs. item = JObj kvs"
  by (cases item) (auto simp: item_row_def)

lemma table_rows_Inr:
  "table_rows its = Inr rows \<Longrightarrow>
     rows = map (\<lambda>item. [Val (item_label item), Fmt (item_amount item)]) its"
  by (induction its arbitrary: rows) (auto split: sum.splits dest: item_row_Inr)

lemma table_rows_dicts:
  "table_rows its = Inr rows \<Longrightarrow> item \<in> set its \<Longrightarrow> \<exists>kvs. item = JObj kvs"
  by (induction its arbitrary: rows) (auto split: sum.splits dest: item_row_is_dict)

lemma py_add_Inr:
  "item_get item amount_key (JNum (PyInt 0)) = Inr v \<Longrightarrow> py_add L acc v = Inr r \<Longrightarrow>
     r = num_plus L acc (item_amount item)"
  by (cases item; cases v) (auto split: option.splits dest: py_plus_Inr)

lemma sum_amounts_Inr:
  "sum_amounts L acc its = Inr s \<Longrightarrow> s = foldl (num_plus L) acc (map item_amount its)"
proof (induction its arbitrary: acc)
  case Nil
  then show ?case by simp
next
  case (Cons item its)
  from Cons.prems obtain v acc' where
    v: "item_get item amount_key (JNum (PyInt 0)) = Inr v"
    and a: "py_add L acc v = Inr acc'"
    and r: "sum_amounts L acc' its = Inr s"
    by (auto split: sum.splits)
  from py_add_Inr [OF v a] Cons.IH [OF r] show ?case by simp
qed

lemma py_sum_Inr: "py_sum L items = Inr s \<Longrightarrow> s = subtotal L items"
proof (cases items)
  case (JArr xs)
  assume "py_sum L items = Inr s"
  with JArr show ?thesis
    by (auto simp: py_sum_def subtotal_def left_sum_def dest: sum_amounts_Inr)
next
  case (JObj kvs)
  assume "py_sum L items = Inr s"
  with JObj show ?thesis by (cases kvs) (auto simp: py_sum_def subtotal_def left_sum_def)
next
  case (JStr t)
  assume "py_sum L items = Inr s"
  with JStr show ?thesis by (cases t) (auto simp: py_sum_def subtotal_def left_sum_def)
qed (auto simp: py_sum_def)

lemma py_sum_falsy:
  "py_sum L items = Inr s \<Longrightarrow> \<not> truthy L items \<Longrightarrow> line_items items = []"
  by (cases items) (auto simp: py_sum_def)

lemma category_paragraph_Inr:
  "category_paragraph L text style = Inr p \<Longrightarrow> p = Paragraph text style"
  by (auto simp: category_paragraph_def split: option.splits)

lemma truthy_category_Inr:
  assumes "truthy L items" "category_elements L ((category, items) # rest) = Inr els"
  shows "\<exists>xs els'. items = JArr xs \<and> xs \<noteq> [] \<and> category_elements L rest = Inr els'
           \<and> els = category_block L (category, items) @ els'"
proof -
  from assms obtain header its rows s sub els' where
    h: "category_paragraph L category SubsectionTitle = Inr header"
    and i: "py_iter items = Inr its"
    and r: "table_rows its = Inr rows"
    and s: "py_sum L items = Inr s"
    and t: "format_num s = Inr sub"
    and e: "category_elements L rest = Inr els'"
    and els: "els = header # Table (header_row # rows @ [[Text (str ''Subtotal''), sub]]) CategoryTable
                # Spacer 1 (3 / 10) # els'"
    by (auto split: sum.splits)
  have "\<exists>xs. items = JArr xs \<and> xs \<noteq> []"
  proof (cases items)
    case (JObj kvs)
    with assms(1) i r table_rows_dicts [of its rows "JStr (fst (hd kvs))"] show ?thesis
      by (cases kvs) auto
  next
    case (JStr t)
    with assms(1) i r table_rows_dicts [of its rows "JStr [hd t]"] show ?thesis
      by (cases t) auto
  qed (use assms(1) i in auto)
  then obtain xs where xs: "items = JArr xs" "xs \<noteq> []" by blast
  with i have "its = xs" by simp
  with r s t h els xs have "els = category_block L (category, items) @ els'"
    by (auto simp: category_block_def dest: table_rows_Inr py_sum_Inr format_num_Inr
        category_paragraph_Inr)
  with xs e show ?thesis by blast
qed

lemma category_elements_Inr:
  "category_elements L cats = Inr els \<Longrightarrow>
     els = concat (map (category_block L) (filter (\<lambda>c. truthy L (snd c)) cats))
     \<and> (\<forall>c \<in> set cats. truthy L (snd c) \<longrightarrow> line_items (snd c) \<noteq> [])"
proof (induction cats arbitrary: els)
  case Nil
  then show ?case by simp
next
  case (Cons c cats)
  obtain category items where c: "c = (category, items)" by (cases c)
  show ?case
  proof (cases "truthy L items")
    case True
    from truthy_category_Inr [OF True] Cons.prems c obtain xs els' where
      "items = JArr xs" "xs \<noteq> []" "category_elements L cats = Inr els'"
      "els = category_block L (category, items) @ els'"
      by blast
    with Cons.IH [of els'] True c show ?thesis by simp
  next
    case False
    with Cons c show ?thesis by simp
  qed
qed

lemma section_total_Inr:
  "section_total L tot cats = Inr t \<Longrightarrow>
     t = foldl (num_plus L) tot (map (\<lambda>c. subtotal L (snd c)) cats)
     \<and> (\<forall>c \<in> set cats. \<not> truthy L (snd c) \<longrightarrow> line_items (snd c) = [])"
proof (induction cats arbitrary: tot)
  case Nil
  then show ?case by simp
next
  case (Cons c cats)
  obtain category items where c: "c = (category, items)" by (cases c)
  with Cons.prems obtain s tot' where
    s: "py_sum L items = Inr s" and p: "py_plus L tot s = Inr tot'"
    and r: "section_total L tot' cats = Inr t"
    by (auto split: sum.splits)
  from py_sum_Inr [OF s] py_plus_Inr [OF p] have "tot' = num_plus L tot (subtotal L items)"
    by simp
  with Cons.IH [OF r] c py_sum_falsy [OF s] show ?case by auto
qed

lemma section_elements_Inr:
  assumes "section_elements L title total_label section = Inr els"
  shows "\<exists>cats. section = JObj cats \<and> els = expected_section L title total_label cats"
proof (cases "section")
  case (JObj cats)
  with assms obtain body tot banner where
    b: "category_elements L cats = Inr body"
    and t: "section_total L (PyInt 0) cats = Inr tot"
    and f: "format_num tot = Inr banner"
    and els: "els = Paragraph title SectionTitle # body @ [Table [[Text total_label, banner]] TotalBanner]"
    by (auto simp: section_elements_def split: sum.splits)
  from category_elements_Inr [OF b] section_total_Inr [OF t]
  have same: "filter (\<lambda>c. truthy L (snd c)) cats = filter (\<lambda>c. line_items (snd c) \<noteq> []) cats"
    by (intro filter_cong) auto
  from category_elements_Inr [OF b] section_total_Inr [OF t] format_num_Inr [OF f] els same
  have "els = expected_section L title total_label cats"
    by (simp add: expected_section_def total_of_def left_sum_def)
  with JObj show ?thesis by simp
qed (use assms in \<open>auto simp: section_elements_def\<close>)

lemma optional_section_JObj:
  "optional_section L key title total_label (JObj sections) =
     (case map_of sections key of None \<Rightarrow> Inr []
      | Some s \<Rightarrow> section_elements L title total_label s)"
proof (cases "map_of sections key")
  case None
  then have "key \<notin> fst ` set sections" by (simp add: map_of_eq_None_iff)
  with None show ?thesis by (simp add: optional_section_def)
next
  case (Some s)
  then have "key \<in> fst ` set sections"
    using map_of_eq_None_iff [of sections key] by auto
  with Some show ?thesis by (simp add: optional_section_def)
qed

lemma optional_section_Inr:
  assumes "optional_section L key title total_label data_dict = Inr els"
  shows "els = expected_optional L key title total_label data_dict"
proof (cases data_dict)
  case (JObj sections)
  with assms show ?thesis
    by (auto simp: optional_section_JObj split: option.splits dest: section_elements_Inr)
qed (use assms in \<open>auto simp: optional_section_def split: if_splits\<close>)

lemma write_to_pdf_Inr:
  "write_to_pdf L data_dict = Inr els \<Longrightarrow> els = expected_report L data_dict"
  by (auto simp: write_to_pdf_def expected_report_def split: sum.splits dest: optional_section_Inr)

lemma no_break_in_section: "PageBreak \<notin> set (expected_section L title total_label cats)"
  by (auto simp: expected_section_def category_block_def)

lemma no_break_in_optional:
  "PageBreak \<notin> set (expected_optional L key title total_label data_dict)"
  by (cases data_dict) (auto simp: no_break_in_section split: option.splits json.splits)

lemma title_no_break: "PageBreak \<notin> set title_elements"
  by (simp add: title_elements_def)

lemma write_to_pdf_InrD:
  assumes "write_to_pdf L data_dict = Inr els"
  shows "\<exists>attivo passivo.
          optional_section L ATTIVO (str ''ATTIVO (Assets)'') (str ''TOTAL ATTIVO'') data_dict
            = Inr attivo
        \<and> optional_section L PASSIVO (str ''PASSIVO (Liabilities & Equity)'') (str ''TOTAL PASSIVO'')
            data_dict = Inr passivo
        \<and> PageBreak \<notin> set attivo \<and> PageBreak \<notin> set passivo
        \<and> els = title_elements @ attivo @ [PageBreak] @ passivo"
proof -
  from assms obtain attivo passivo where
    a: "optional_section L ATTIVO (str ''ATTIVO (Assets)'') (str ''TOTAL ATTIVO'') data_dict
          = Inr attivo"
    and p: "optional_section L PASSIVO (str ''PASSIVO (Liabilities & Equity)'') (str ''TOTAL PASSIVO'')
          data_dict = Inr passivo"
    and els: "els = title_elements @ attivo @ [PageBreak] @ passivo"
    by (auto simp: write_to_pdf_def split: sum.splits)
  from a have na: "PageBreak \<notin> set attivo"
    using optional_section_Inr no_break_in_optional by metis
  from p have np: "PageBreak \<notin> set passivo"
    using optional_section_Inr no_break_in_optional by metis
  from a p na np els show ?thesis by blast
qed

lemma section_elements_not_empty: "section_elements L title total_label s \<noteq> Inr []"
  by (auto simp: section_elements_def split: sum.splits)

lemma optional_section_empty:
  "optional_section L key title total_label (JObj sections) = Inr [] \<longleftrightarrow> key \<notin> fst ` set sections"
  using map_of_eq_None_iff [of sections key]
  by (auto simp: optional_section_JObj section_elements_not_empty split: option.splits)

lemma category_elements_skip:
  "category_elements L (cats1 @ (category, JArr []) # cats2) = category_elements L (cats1 @ cats2)"
  by (induction cats1) (auto split: sum.splits)

lemma neutral_total_plus:
  assumes "ieee_zero L" "neutral_total L tot" "py_plus L tot s = Inr tot'"
  shows "neutral_total L tot'"
proof (cases "\<exists>a b. tot = PyInt a \<and> s = PyInt b")
  case True
  with assms(3) show ?thesis by auto
next
  case False
  with assms(3) obtain x y where
    x: "to_float L tot = Inr x" and tot': "tot' = PyFloat (float_add L x y)"
    by (cases tot; cases s) (auto split: sum.splits)
  from x assms(1,2) have "zero_neutral L x"
    by (cases tot) (auto simp: ieee_zero_def split: if_splits)
  with assms(1) tot' show ?thesis by (simp add: ieee_zero_def)
qed

lemma neutral_total_plus_0: "neutral_total L tot \<Longrightarrow> py_plus L tot (PyInt 0) = Inr tot"
  by (cases tot) (simp_all add: int_fits_0 zero_neutral_def)

lemma section_total_skip:
  assumes "ieee_zero L"
  shows "neutral_total L tot \<Longrightarrow>
     section_total L tot (cats1 @ (category, JArr []) # cats2) = section_total L tot (cats1 @ cats2)"
proof (induction cats1 arbitrary: tot)
  case Nil
  then show ?case by (simp add: py_sum_def neutral_total_plus_0)
next
  case (Cons c cats1)
  obtain name items where c: "c = (name, items)" by (cases c)
  show ?case
  proof (cases "py_sum L items")
    case (Inl e)
    with c show ?thesis by simp
  next
    case (Inr s)
    show ?thesis
    proof (cases "py_plus L tot s")
      case (Inl e)
      with Inr c show ?thesis by simp
    next
      case plus: (Inr tot')
      from neutral_total_plus [OF assms Cons.prems plus] have "neutral_total L tot'" .
      from Cons.IH [OF this] Inr plus c show ?thesis by simp
    qed
  qed
qed

lemma section_elements_skip:
  "ieee_zero L \<Longrightarrow>
     section_elements L title total_label (JObj (cats1 @ (category, JArr []) # cats2))
     = section_elements L title total_label (JObj (cats1 @ cats2))"
  by (simp add: section_elements_def category_elements_skip section_total_skip split: sum.splits)

text \<open>A non-numeric amount makes every loop that reaches it raise.\<close>

lemma bad_item_row:
  "map_of kvs amount_key = Some v \<Longrightarrow> \<not> numeric v \<Longrightarrow>
     item_row (JObj kvs) = Inl (case v of JStr s \<Rightarrow> ValueError | _ \<Rightarrow> TypeError)"
  by (cases v) (simp_all add: item_row_def)

lemma bad_item_rows:
  assumes "JObj kvs \<in> set its" "map_of kvs amount_key = Some v" "\<not> numeric v"
  shows "\<exists>e. table_rows its = Inl e"
  using assms(1)
proof (induction its)
  case Nil
  then show ?case by simp
next
  case (Cons item its)
  show ?case
  proof (cases "item = JObj kvs")
    case True
    with bad_item_row [OF assms(2,3)] show ?thesis by simp
  next
    case False
    with Cons show ?thesis by (auto split: sum.splits)
  qed
qed

lemma category_elements_tail:
  "category_elements L (c # cats) = Inr els \<Longrightarrow> \<exists>els'. category_elements L cats = Inr els'"
  by (cases c) (auto split: if_splits sum.splits)

lemma bad_item_category:
  assumes "(category, JArr items) \<in> set cats" "JObj kvs \<in> set items"
    "map_of kvs amount_key = Some v" "\<not> numeric v"
  shows "\<exists>e. category_elements L cats = Inl e"
  using assms(1)
proof (induction cats)
  case Nil
  then show ?case by simp
next
  case (Cons c cats)
  show ?case
  proof (cases "c = (category, JArr items)")
    case True
    from assms(2) have "items \<noteq> []" by auto
    with True bad_item_rows [OF assms(2,3,4)] show ?thesis
      by (auto split: sum.splits)
  next
    case False
    with Cons obtain e where "category_elements L cats = Inl e" by auto
    with category_elements_tail [of L c cats] show ?thesis
      by (cases "category_elements L (c # cats)") auto
  qed
qed

lemma bad_item_section:
  assumes "(category, JArr items) \<in> set cats" "JObj kvs \<in> set items"
    "map_of kvs amount_key = Some v" "\<not> numeric v"
  shows "\<exists>e. section_elements L title total_label (JObj cats) = Inl e"
  using bad_item_category [OF assms, of L]
  by (auto simp: section_elements_def)

lemma bad_item_document:
  assumes "key = ATTIVO \<or> key = PASSIVO"
    and "map_of sections key = Some (JObj cats)"
    and "(category, JArr items) \<in> set cats" "JObj kvs \<in> set items"
    and "map_of kvs amount_key = Some v" "\<not> numeric v"
  shows "\<exists>e. write_to_pdf L (JObj sections) = Inl e"
proof -
  from bad_item_section [OF assms(3-6)] assms(2)
  have "\<exists>e. optional_section L key title total_label (JObj sections) = Inl e" for title total_label
    by (simp add: optional_section_JObj)
  then obtain e where
    e: "optional_section L key (if key = ATTIVO then str ''ATTIVO (Assets)''
          else str ''PASSIVO (Liabilities & Equity)'')
        (if key = ATTIVO then str ''TOTAL ATTIVO'' else str ''TOTAL PASSIVO'') (JObj sections)
        = Inl e"
    by blast
  show ?thesis
  proof (cases "key = ATTIVO")
    case True
    with e show ?thesis by (simp add: write_to_pdf_def)
  next
    case False
    with assms(1) have k: "key = PASSIVO" by simp
    from False e k show ?thesis
      by (cases "optional_section L ATTIVO (str ''ATTIVO (Assets)'') (str ''TOTAL ATTIVO'')
            (JObj sections)") (simp_all add: write_to_pdf_def)
  qed
qed



text \<open>Replacing one item by another that behaves the same changes nothing.\<close>

lemma table_rows_change:
  "item_row a = item_row b \<Longrightarrow> table_rows (its1 @ a # its2) = table_rows (its1 @ b # its2)"
  by (induction its1) (simp_all cong: sum.case_cong)

lemma sum_amounts_change:
  "item_get a amount_key (JNum (PyInt 0)) = item_get b amount_key (JNum (PyInt 0)) \<Longrightarrow>
     sum_amounts L acc (its1 @ a # its2) = sum_amounts L acc (its1 @ b # its2)"
  by (induction its1 arbitrary: acc) (auto split: sum.splits)

lemma category_elements_change:
  assumes "item_row a = item_row b"
    and "item_get a amount_key (JNum (PyInt 0)) = item_get b amount_key (JNum (PyInt 0))"
  shows "category_elements L (cats1 @ (category, JArr (its1 @ a # its2)) # cats2)
    = category_elements L (cats1 @ (category, JArr (its1 @ b # its2)) # cats2)"
proof (induction cats1)
  case Nil
  show ?case
    using table_rows_change [OF assms(1), of its1 its2]
      sum_amounts_change [OF assms(2), of L "PyInt 0" its1 its2]
    by (simp add: py_sum_def cong: sum.case_cong)
next
  case (Cons c cats1)
  then show ?case by (cases c) (simp cong: sum.case_cong)
qed

lemma section_total_change:
  assumes "item_get a amount_key (JNum (PyInt 0)) = item_get b amount_key (JNum (PyInt 0))"
  shows "section_total L tot (cats1 @ (category, JArr (its1 @ a # its2)) # cats2)
    = section_total L tot (cats1 @ (category, JArr (its1 @ b # its2)) # cats2)"
proof (induction cats1 arbitrary: tot)
  case Nil
  show ?case
    using sum_amounts_change [OF assms, of L "PyInt 0" its1 its2] by (simp add: py_sum_def)
next
  case (Cons c cats1)
  then show ?case by (cases c) (simp split: sum.splits)
qed

lemma section_elements_change:
  assumes "item_row a = item_row b"
    and "item_get a amount_key (JNum (PyInt 0)) = item_get b amount_key (JNum (PyInt 0))"
  shows "section_elements L title total_label
           (JObj (cats1 @ (category, JArr (its1 @ a # its2)) # cats2))
    = section_elements L title total_label
           (JObj (cats1 @ (category, JArr (its1 @ b # its2)) # cats2))"
  by (simp add: section_elements_def category_elements_change [OF assms]
      section_total_change [OF assms(2)] cong: sum.case_cong)

lemma optional_section_change:
  assumes "section_elements L title total_label x = section_elements L title total_label y"
  shows "optional_section L k title total_label (JObj (s1 @ (key, x) # s2))
    = optional_section L k title total_label (JObj (s1 @ (key, y) # s2))"
  using assms by (cases "map_of s1 k") (simp_all add: optional_section_JObj map_add_def)

lemma write_to_pdf_change:
  assumes "item_row a = item_row b"
    and "item_get a amount_key (JNum (PyInt 0)) = item_get b amount_key (JNum (PyInt 0))"
  shows "write_to_pdf L
           (JObj (s1 @ (key, JObj (cats1 @ (category, JArr (its1 @ a # its2)) # cats2)) # s2))
    = write_to_pdf L
           (JObj (s1 @ (key, JObj (cats1 @ (category, JArr (its1 @ b # its2)) # cats2)) # s2))"
  by (simp add: write_to_pdf_def
      optional_section_change [OF section_elements_change [OF assms]] cong: sum.case_cong)

lemma label_amount_keys: "label_key \<noteq> amount_key"
  by (simp add: label_key_def amount_key_def str_def)

text \<open>The table of a category in a report that was built.\<close>

lemma table_in_report:
  assumes "key = ATTIVO \<or> key = PASSIVO"
    and "map_of sections key = Some (JObj cats)"
    and "(category, JArr items) \<in> set cats" "items \<noteq> []"
    and "write_to_pdf L (JObj sections) = Inr els"
  shows "Table (header_row
           # map (\<lambda>item. [Val (item_label item), Fmt (item_amount item)]) items
           @ [[Text (str ''Subtotal''), Fmt (subtotal L (JArr items))]]) CategoryTable \<in> set els"
proof -
  let ?t = "Table (header_row
           # map (\<lambda>item. [Val (item_label item), Fmt (item_amount item)]) items
           @ [[Text (str ''Subtotal''), Fmt (subtotal L (JArr items))]]) CategoryTable"
  have "?t \<in> set (category_block L (category, JArr items))"
    by (simp add: category_block_def)
  with assms(3,4) have "?t \<in> set (expected_section L title total_label cats)" for title total_label
    by (force simp: expected_section_def)
  with assms(2) have "?t \<in> set (expected_optional L key title total_label (JObj sections))"
    for title total_label
    by simp
  with assms(1) have "?t \<in> set (expected_report L (JObj sections))"
    unfolding expected_report_def by auto
  with write_to_pdf_Inr [OF assms(5)] show ?thesis by simp
qed

section \<open>Rounding to a double is idempotent\<close>

lemma floorlog_pos: "0 < n \<Longrightarrow> 0 < floorlog 2 n"
  by (simp add: floorlog_def)

lemma binary_exponent_bounds:
  assumes "0 < a"
  shows "2 powi binary_exponent a \<le> a \<and> a < 2 powi (binary_exponent a + 1)"
proof (cases "1 \<le> a")
  case True
  define n where "n = nat \<lfloor>a\<rfloor>"
  define k where "k = floorlog 2 n - 1"
  from True have n: "0 < n" "real n \<le> a" "a < real n + 1"
    unfolding n_def by (simp_all add: floor_less_iff)
  from floorlog_pos [OF n(1)] have fl: "floorlog 2 n = Suc k" by (simp add: k_def)
  from floorlog_bounds [of n 2] n(1) fl have b: "2 ^ k \<le> n" "n < 2 ^ Suc k" by simp_all
  from True fl have e: "binary_exponent a = int k"
    by (simp add: binary_exponent_def n_def)
  from b(1) have lo: "(2::real) ^ k \<le> real n"
    by (metis of_nat_le_iff of_nat_numeral of_nat_power)
  from b(2) have "Suc n \<le> 2 ^ Suc k" by simp
  then have "real (Suc n) \<le> 2 ^ Suc k"
    by (metis of_nat_le_iff of_nat_numeral of_nat_power)
  then have hi: "real n + 1 \<le> 2 ^ Suc k" by (simp add: add.commute)
  have p1: "(2::real) powi int k = 2 ^ k" by simp
  have "int k + 1 = int (Suc k)" by simp
  then have p2: "(2::real) powi (int k + 1) = 2 ^ Suc k"
    by (simp only: power_int_of_nat)
  from lo hi n(2,3) show ?thesis unfolding e p1 p2 by linarith
next
  case False
  define b where "b = 1 / a"
  define c where "c = nat (\<lceil>b\<rceil> - 1)"
  define k where "k = floorlog 2 c - 1"
  from False assms have b1: "1 < b" by (simp add: b_def)
  then have "2 \<le> \<lceil>b\<rceil>" by (simp add: le_ceiling_iff)
  then have c2: "2 \<le> \<lceil>b\<rceil>" .
  have ce: "real_of_int \<lceil>b\<rceil> - 1 < b" "b \<le> real_of_int \<lceil>b\<rceil>"
    using ceiling_correct [of b] by simp_all
  from c2 have rc: "real c = real_of_int \<lceil>b\<rceil> - 1"
    unfolding c_def by simp
  from c2 have c0: "0 < c" unfolding c_def by simp
  from ce rc have c: "real c < b" "b \<le> real c + 1" by linarith+
  from floorlog_pos [OF c0] have fl: "floorlog 2 c = Suc k" by (simp add: k_def)
  from floorlog_bounds [of c 2] c0 fl have bd: "2 ^ k \<le> c" "c < 2 ^ Suc k" by simp_all
  from False fl have e: "binary_exponent a = - int (Suc k)"
    by (simp add: binary_exponent_def b_def c_def)
  from bd(1) have "(2::real) ^ k \<le> real c"
    by (metis of_nat_le_iff of_nat_numeral of_nat_power)
  with c have lo: "2 ^ k < b" by linarith
  from bd(2) have "Suc c \<le> 2 ^ Suc k" by simp
  then have "real (Suc c) \<le> 2 ^ Suc k"
    by (metis of_nat_le_iff of_nat_numeral of_nat_power)
  then have "real c + 1 \<le> 2 ^ Suc k" by (simp add: add.commute)
  with c have hi: "b \<le> 2 ^ Suc k" by linarith
  have a: "a = 1 / b" using assms by (simp add: b_def)
  have q1: "(2::real) powi (- int (Suc k)) = 1 / 2 ^ Suc k"
    by (simp only: power_int_minus_divide power_int_of_nat)
  have "- int (Suc k) + 1 = - int k" by simp
  then have q2: "(2::real) powi (- int (Suc k) + 1) = 1 / 2 ^ k"
    by (simp only: power_int_minus_divide power_int_of_nat)
  from b1 have bpos: "0 < b" by simp
  from hi bpos have "1 / 2 ^ Suc k \<le> 1 / b"
    by (intro divide_left_mono) simp_all
  then have r1: "1 / 2 ^ Suc k \<le> a" by (simp only: a)
  from lo have "1 / b < 1 / 2 ^ k"
    by (intro divide_strict_left_mono) (simp_all add: bpos)
  then have r2: "a < 1 / 2 ^ k" by (simp only: a)
  from r1 r2 show ?thesis unfolding e q1 q2 by simp
qed

lemma binary_exponent_unique:
  assumes "2 powi k \<le> a" "a < 2 powi (k + 1)"
  shows "binary_exponent a = k"
proof -
  have pos: "0 < a" using assms(1) zero_less_power_int [of "2::real" k] by linarith
  from binary_exponent_bounds [OF pos]
  have 1: "2 powi binary_exponent a \<le> a" and 2: "a < 2 powi (binary_exponent a + 1)" by simp_all
  have "\<not> k + 1 \<le> binary_exponent a"
  proof
    assume "k + 1 \<le> binary_exponent a"
    then have "(2::real) powi (k + 1) \<le> 2 powi binary_exponent a"
      by (intro power_int_increasing) simp_all
    with 1 assms(2) show False by linarith
  qed
  moreover have "\<not> binary_exponent a + 1 \<le> k"
  proof
    assume "binary_exponent a + 1 \<le> k"
    then have "(2::real) powi (binary_exponent a + 1) \<le> 2 powi k"
      by (intro power_int_increasing) simp_all
    with 2 assms(1) show False by linarith
  qed
  ultimately show ?thesis by simp
qed

lemma round_half_even_bounds: "\<lfloor>m\<rfloor> \<le> round_half_even m \<and> round_half_even m \<le> \<lfloor>m\<rfloor> + 1"
  by (simp add: round_half_even_def Let_def)

lemma round_half_even_of_int: "round_half_even (of_int n) = n"
  by (simp add: round_half_even_def)

lemma round_double_minus: "round_double (- x) = - round_double x"
  by (simp add: round_double_def Let_def)

lemma round_double_pos:
  "0 < a \<Longrightarrow>
     round_double a
     = of_int (round_half_even (a / 2 powi (binary_exponent a - 52))) * 2 powi (binary_exponent a - 52)"
  by (simp add: round_double_def Let_def)

text \<open>A significand of 53 bits times a power of two is a double: rounding leaves it.\<close>

lemma round_double_significand:
  assumes "2 ^ 52 \<le> n" "n < 2 ^ 53"
  shows "round_double (of_int n * 2 powi k) = of_int n * 2 powi k"
proof -
  define a :: real where "a = of_int n * 2 powi k"
  have u: "0 < (2::real) powi k" by simp
  from assms(1) have n0: "0 < n" by simp
  have pos: "0 < a" unfolding a_def using n0 u by simp
  have p1: "(2::real) powi (k + 52) = 2 ^ 52 * 2 powi k"
    by (simp add: power_int_add)
  have p2: "(2::real) powi (k + 52 + 1) = 2 ^ 53 * 2 powi k"
    by (simp add: power_int_add)
  from assms(1) have "(2::real) ^ 52 \<le> of_int n"
    using of_int_le_iff [of "2 ^ 52" n, where ?'a = real] by simp
  then have lo: "2 powi (k + 52) \<le> a"
    unfolding p1 a_def using u by (intro mult_right_mono) simp_all
  from assms(2) have "real_of_int n < 2 ^ 53"
    using of_int_less_iff [of n "2 ^ 53", where ?'a = real] by simp
  then have hi: "a < 2 powi (k + 52 + 1)"
    unfolding p2 a_def using u by (intro mult_strict_right_mono) simp_all
  from binary_exponent_unique [OF lo hi] have e: "binary_exponent a - 52 = k" by simp
  have q: "a / 2 powi k = of_int n" unfolding a_def by simp
  from pos have "round_double a = of_int (round_half_even (a / 2 powi k)) * 2 powi k"
    by (simp add: round_double_pos e)
  also have "\<dots> = of_int n * 2 powi k"
    by (simp only: q round_half_even_of_int)
  finally show ?thesis unfolding a_def .
qed

lemma round_double_idem_pos:
  assumes "0 < a"
  shows "round_double (round_double a) = round_double a"
proof -
  define e where "e = binary_exponent a"
  define u :: real where "u = 2 powi (e - 52)"
  define m where "m = a / u"
  define n where "n = round_half_even m"
  have u: "0 < u" unfolding u_def by simp
  from binary_exponent_bounds [OF assms]
  have b: "2 powi e \<le> a" "a < 2 powi (e + 1)" unfolding e_def by simp_all
  have p1: "(2::real) powi e = 2 ^ 52 * u"
    unfolding u_def by (simp add: power_int_diff)
  have p2: "(2::real) powi (e + 1) = 2 ^ 53 * u"
    unfolding u_def by (simp add: power_int_diff power_int_add)
  from b(1) u have "2 ^ 52 \<le> m" unfolding m_def p1 by (simp add: field_simps)
  then have "2 ^ 52 \<le> \<lfloor>m\<rfloor>" by (simp add: le_floor_iff)
  with round_half_even_bounds [of m] have lo: "2 ^ 52 \<le> n" unfolding n_def by linarith
  from b(2) u have "m < 2 ^ 53" unfolding m_def p2 by (simp add: field_simps)
  then have "\<lfloor>m\<rfloor> < 2 ^ 53" by (simp add: floor_less_iff)
  with round_half_even_bounds [of m] have hi: "n \<le> 2 ^ 53" unfolding n_def by linarith
  have r: "round_double a = of_int n * u"
    using assms by (simp add: round_double_pos n_def m_def u_def e_def)
  show ?thesis
  proof (cases "n < 2 ^ 53")
    case True
    from round_double_significand [OF lo True, of "e - 52"] show ?thesis
      unfolding r u_def by simp
  next
    case False
    with hi have n: "n = 2 ^ 53" by simp
    have "(2::real) powi (e - 52 + 1) = 2 powi (e - 52) * 2"
      by (rule power_int_add_1) simp
    then have "of_int n * u = of_int (2 ^ 52) * 2 powi (e - 52 + 1)"
      unfolding n u_def by simp
    moreover have "round_double (of_int (2 ^ 52) * 2 powi (e - 52 + 1))
        = of_int (2 ^ 52) * 2 powi (e - 52 + 1)"
      by (rule round_double_significand) simp_all
    ultimately show ?thesis unfolding r by simp
  qed
qed

lemma round_double_idem: "round_double (round_double x) = round_double x"
proof (cases "0 < x")
  case True
  then show ?thesis by (rule round_double_idem_pos)
next
  case False
  show ?thesis
  proof (cases "x = 0")
    case True
    then show ?thesis by (simp add: round_double_def)
  next
    case nz: False
    with False have "0 < - x" by simp
    from round_double_idem_pos [OF this] show ?thesis
      by (simp add: round_double_minus)
  qed
qed

lemma round_double_0: "round_double 0 = 0"
  by (simp add: round_double_def)

lemma ieee_zero_doubles: "ieee_zero doubles"
  by (simp add: ieee_zero_def zero_neutral_def doubles_def round_double_0 round_double_idem)

section \<open>Evaluating concrete documents\<close>

text \<open>
  The definitions to unfold when \<open>write_to_pdf\<close> is evaluated on a concrete document.
\<close>

lemmas eval_defs = str_def ATTIVO_def PASSIVO_def label_key_def amount_key_def

lemmas doubles_defs =
  doubles_def int_fits_def round_double_def binary_exponent_def round_half_even_def
  compute_floorlog Let_def category_paragraph_def

lemmas write_to_pdf_defs =
  write_to_pdf_def optional_section_def section_elements_def item_row_def py_sum_def

section \<open>Claims about \<open>extract_json\<close>\<close>

text \<open>
  C2. For every string that holds one JSON object text (from its opening \<open>{\<close> to its
  closing \<open>}\<close>) between surrounding texts that contain no brace, \<open>extract_json\<close> returns
  what \<open>json.loads\<close> returns for that object text. In general, the span that it hands to
  \<open>json.loads\<close> runs from the first \<open>{\<close> to the last \<open>}\<close> of the cleaned text.
\<close>

theorem extract_json_single_object:
  "(lbrace \<notin> set pre \<and> rbrace \<notin> set pre \<and> lbrace \<notin> set post \<and> rbrace \<notin> set post
      \<and> loads (lbrace # mid @ [rbrace]) = Some v
    \<longrightarrow> extract_json loads (pre @ lbrace # mid @ rbrace # post) = Inr v)
   \<and> (cleaned s = a @ lbrace # body @ rbrace # b \<and> lbrace \<notin> set a \<and> rbrace \<notin> set b
    \<longrightarrow> extract_json loads s =
          (case loads (lbrace # body @ [rbrace]) of Some v \<Rightarrow> Inr v | None \<Rightarrow> Inl JSONDecodeError))"
proof (intro conjI impI)
  assume "lbrace \<notin> set pre \<and> rbrace \<notin> set pre \<and> lbrace \<notin> set post \<and> rbrace \<notin> set post
      \<and> loads (lbrace # mid @ [rbrace]) = Some v"
  then show "extract_json loads (pre @ lbrace # mid @ rbrace # post) = Inr v"
    by (simp add: extract_json_span)
next
  assume "cleaned s = a @ lbrace # body @ rbrace # b \<and> lbrace \<notin> set a \<and> rbrace \<notin> set b"
  then show "extract_json loads s =
      (case loads (lbrace # body @ [rbrace]) of Some v \<Rightarrow> Inr v | None \<Rightarrow> Inl JSONDecodeError)"
    by (simp add: extract_json_def re_search_span)
qed

text \<open>
  The text of the specification's scenario C, with a \<open>json.loads\<close> that knows the one
  object text in it.
\<close>

theorem extract_json_single_object_witness:
  \<open>extract_json (\<lambda>t. if t = str ''{"PASSIVO": {}}'' then Some (JObj [(PASSIVO, JObj [])]) else None)
     (str ''Here is the result: '' @ lbrace # str ''"PASSIVO": {}'' @ rbrace # 10 # str ''Thanks'')
   = Inr (JObj [(PASSIVO, JObj [])] :: real json)\<close>
  using extract_json_single_object
    [of "str ''Here is the result: ''" "10 # str ''Thanks''"
        \<open>\<lambda>t. if t = str ''{"PASSIVO": {}}'' then Some (JObj [(PASSIVO, JObj [])]) else None\<close>
        \<open>str ''"PASSIVO": {}''\<close> "JObj [(PASSIVO, JObj [])] :: real json"]
  by (simp add: str_def lbrace_def rbrace_def)

text \<open>
  C3. \<open>extract_json\<close> raises exactly when the input has no \<open>{\<close> with a \<open>}\<close> somewhere
  after it, or when \<open>json.loads\<close> rejects the span from the first \<open>{\<close> to the last \<open>}\<close>.
  It raises \<open>ValueError\<close> in the first case and \<open>json.JSONDecodeError\<close>, a subclass of
  \<open>ValueError\<close>, in the second; the conversion then raises the same exception and
  builds no report.
\<close>

theorem extract_json_raises_iff:
  "((\<exists>e. extract_json loads s = Inl e) \<longleftrightarrow>
      \<not> (\<exists>a body b. s = a @ lbrace # body @ rbrace # b)
      \<or> (\<exists>a body b. s = a @ lbrace # body @ rbrace # b \<and> lbrace \<notin> set a \<and> rbrace \<notin> set b
            \<and> loads (lbrace # body @ [rbrace]) = None))
   \<and> (\<not> (\<exists>a body b. s = a @ lbrace # body @ rbrace # b) \<longrightarrow> extract_json loads s = Inl ValueError)
   \<and> ((\<exists>a body b. s = a @ lbrace # body @ rbrace # b \<and> lbrace \<notin> set a \<and> rbrace \<notin> set b
            \<and> loads (lbrace # body @ [rbrace]) = None)
        \<longrightarrow> extract_json loads s = Inl JSONDecodeError)
   \<and> (\<forall>e. extract_json loads s = Inl e \<longrightarrow> convert L loads s = Inl e)"
proof -
  let ?nospan = "\<not> (\<exists>a body b. s = a @ lbrace # body @ rbrace # b)"
  let ?bad = "\<exists>a body b. s = a @ lbrace # body @ rbrace # b \<and> lbrace \<notin> set a \<and> rbrace \<notin> set b
            \<and> loads (lbrace # body @ [rbrace]) = None"
  have 1: "extract_json loads s = Inl ValueError" if ?nospan
    using that re_search_None_iff [of s] by (simp add: extract_json_def re_search_cleaned)
  have 2: "extract_json loads s = Inl JSONDecodeError" if ?bad
    using that by (auto simp: extract_json_span)
  have 3: "?nospan \<or> ?bad" if "extract_json loads s = Inl e" for e
  proof (cases "re_search s")
    case None
    then show ?thesis using re_search_None_iff [of s] by simp
  next
    case (Some m)
    with that have "loads m = None"
      by (auto simp: extract_json_def re_search_cleaned split: option.splits)
    with Some re_search_SomeD [of s m] show ?thesis by blast
  qed
  have 4: "convert L loads s = Inl e" if "extract_json loads s = Inl e" for e
    using that by (simp add: convert_def)
  from 1 2 3 4 show ?thesis by blast
qed

theorem extract_json_raises_iff_witness:
  "extract_json (\<lambda>t. None :: real json option) (str ''{ \"ATTIVO\": { '') = Inl ValueError
   \<and> convert doubles (\<lambda>t. None) (str ''{ \"ATTIVO\": { '') = Inl ValueError
   \<and> \<not> (\<exists>a body b. str ''{ \"ATTIVO\": { '' = a @ lbrace # body @ rbrace # b)
   \<and> extract_json (\<lambda>t. None :: real json option) (str ''{ \"ATTIVO\": } '')
       = Inl JSONDecodeError"
proof -
  have a: "extract_json (\<lambda>t. None :: real json option) (str ''{ \"ATTIVO\": { '') = Inl ValueError"
    by (simp add: extract_json_def cleaned_def strip_def isspace_def str_def
        lbrace_def rbrace_def quote1_def quote2_def)
  have b: "extract_json (\<lambda>t. None :: real json option) (str ''{ \"ATTIVO\": } '')
      = Inl JSONDecodeError"
    by (simp add: extract_json_def cleaned_def strip_def isspace_def str_def
        lbrace_def rbrace_def quote1_def quote2_def)
  from a b extract_json_raises_iff [of "\<lambda>t. None" "str ''{ \"ATTIVO\": { ''" doubles]
  show ?thesis by auto
qed

section \<open>Claims about \<open>write_to_pdf\<close>\<close>




text \<open>
  C4 as stated fails: an amount that is a string is not normalised to 0. Formatting it
  raises \<open>ValueError\<close> and no report is built.
\<close>

theorem non_numeric_amount_counterexample:
  "write_to_pdf doubles (JObj [(ATTIVO, JObj [(str ''A) Crediti'',
       JArr [JObj [(label_key, JStr (str ''Soci'')), (amount_key, JStr (str ''n/a''))]])])])
   = Inl ValueError"
  by (simp add: write_to_pdf_defs doubles_defs eval_defs)

text \<open>
  C4 as amended. For every line item of a non-empty item list in a section that is
  present, an amount field that is present and is a string, \<open>None\<close>, a list or a
  \<open>dict\<close> makes the item's row raise (\<open>ValueError\<close> for a string, \<open>TypeError\<close>
  otherwise), and \<open>write_to_pdf\<close> raises instead of building a report.
\<close>

theorem non_numeric_amount_raises:
  assumes "key = ATTIVO \<or> key = PASSIVO"
    and "map_of sections key = Some (JObj cats)"
    and "(category, JArr items) \<in> set cats"
    and "JObj kvs \<in> set items"
    and "map_of kvs amount_key = Some v"
    and "\<not> numeric v"
  shows "item_row (JObj kvs) = Inl (case v of JStr s \<Rightarrow> ValueError | _ \<Rightarrow> TypeError)
    \<and> (\<exists>e. write_to_pdf L (JObj sections) = Inl e)"
  using bad_item_row [OF assms(5,6)] bad_item_document [OF assms, of L] by simp

theorem non_numeric_amount_raises_witness:
  "item_row (JObj [(label_key, JStr (str ''Fondo'')), (amount_key, JNull)] :: real json)
     = Inl TypeError
   \<and> (\<exists>e. write_to_pdf doubles (JObj [(PASSIVO, JObj [(str ''B) Fondi'',
         JArr [JObj [(label_key, JStr (str ''Fondo'')), (amount_key, JNull)]])])]) = Inl e)"
  using non_numeric_amount_raises [of PASSIVO
      "[(PASSIVO, JObj [(str ''B) Fondi'',
         JArr [JObj [(label_key, JStr (str ''Fondo'')), (amount_key, JNull)]])])]"
      "[(str ''B) Fondi'', JArr [JObj [(label_key, JStr (str ''Fondo'')), (amount_key, JNull)]])]"
      "str ''B) Fondi''" "[JObj [(label_key, JStr (str ''Fondo'')), (amount_key, JNull)]]"
      "[(label_key, JStr (str ''Fondo'')), (amount_key, JNull)]" JNull doubles]
  by (simp add: eval_defs)

text \<open>
  C5 as stated fails: a section key that maps to an empty \<open>dict\<close> is not omitted. Its
  section header and a total banner of 0 are rendered, so the report differs from the
  one of a document without the key.
\<close>

theorem empty_section_counterexample:
  "write_to_pdf doubles (JObj [(PASSIVO, JObj [])])
   = Inr (title_elements
      @ [PageBreak,
         Paragraph (str ''PASSIVO (Liabilities & Equity)'') SectionTitle,
         Table [[Text (str ''TOTAL PASSIVO''), Fmt (PyInt 0)]] TotalBanner])
   \<and> write_to_pdf doubles (JObj [(PASSIVO, JObj [])]) \<noteq> write_to_pdf doubles (JObj [])"
  by (simp add: write_to_pdf_defs int_fits_def eval_defs)

text \<open>
  C5 as amended. For every input mapping in which a section key is present and maps to
  an empty mapping, that section is rendered as its section header followed by its
  total banner showing 0, with no category table; the section itself raises nothing.
\<close>

theorem empty_section_rendered:
  "(map_of sections ATTIVO = Some (JObj []) \<longrightarrow>
      write_to_pdf L (JObj sections) =
        (case optional_section L PASSIVO (str ''PASSIVO (Liabilities & Equity)'')
                (str ''TOTAL PASSIVO'') (JObj sections) of
           Inl e \<Rightarrow> Inl e
         | Inr passivo \<Rightarrow>
             Inr (title_elements
                  @ [Paragraph (str ''ATTIVO (Assets)'') SectionTitle,
                     Table [[Text (str ''TOTAL ATTIVO''), Fmt (PyInt 0)]] TotalBanner,
                     PageBreak]
                  @ passivo)))
   \<and> (map_of sections PASSIVO = Some (JObj []) \<longrightarrow>
      write_to_pdf L (JObj sections) =
        (case optional_section L ATTIVO (str ''ATTIVO (Assets)'') (str ''TOTAL ATTIVO'')
                (JObj sections) of
           Inl e \<Rightarrow> Inl e
         | Inr attivo \<Rightarrow>
             Inr (title_elements @ attivo
                  @ [PageBreak,
                     Paragraph (str ''PASSIVO (Liabilities & Equity)'') SectionTitle,
                     Table [[Text (str ''TOTAL PASSIVO''), Fmt (PyInt 0)]] TotalBanner])))"
  by (auto simp: write_to_pdf_def optional_section_JObj section_elements_def int_fits_0
      split: sum.splits)

theorem empty_section_rendered_witness:
  "write_to_pdf doubles (JObj [(ATTIVO, JObj []), (PASSIVO, JObj [])])
   = Inr (title_elements
      @ [Paragraph (str ''ATTIVO (Assets)'') SectionTitle,
         Table [[Text (str ''TOTAL ATTIVO''), Fmt (PyInt 0)]] TotalBanner,
         PageBreak,
         Paragraph (str ''PASSIVO (Liabilities & Equity)'') SectionTitle,
         Table [[Text (str ''TOTAL PASSIVO''), Fmt (PyInt 0)]] TotalBanner])"
  using empty_section_rendered [of "[(ATTIVO, JObj []), (PASSIVO, JObj [])]" doubles]
  by (simp add: optional_section_JObj section_elements_def int_fits_0 eval_defs)

text \<open>
  C6 as stated fails: a category that is present with zero line items gets no header,
  no table and no subtotal row; only the section header and the total banner appear.
\<close>

theorem empty_category_counterexample:
  "write_to_pdf doubles (JObj [(ATTIVO, JObj [(str ''C) Attivo circolante'', JArr [])])])
   = Inr (title_elements
      @ [Paragraph (str ''ATTIVO (Assets)'') SectionTitle,
         Table [[Text (str ''TOTAL ATTIVO''), Fmt (PyInt 0)]] TotalBanner,
         PageBreak])"
  by (simp add: write_to_pdf_defs int_fits_def eval_defs)

text \<open>
  C6 as amended. For every category that is present with zero line items, the guard
  \<open>if items:\<close> skips it: the section renders exactly as it does without that category
  (no header, no table, no subtotal row, and the \<open>int\<close> 0 added to the total). This holds
  for every float arithmetic with the two IEEE 754 properties of \<open>ieee_zero\<close>, under
  which adding 0 never changes a running total.
\<close>

theorem empty_category_skipped:
  "ieee_zero L \<Longrightarrow>
     section_elements L title total_label (JObj (cats1 @ (category, JArr []) # cats2))
     = section_elements L title total_label (JObj (cats1 @ cats2))"
  by (rule section_elements_skip)

text \<open>
  Double-precision arithmetic has the two properties; a section with a float subtotal
  before the empty category.
\<close>

theorem empty_category_skipped_witness:
  "ieee_zero doubles
   \<and> section_elements doubles (str ''ATTIVO (Assets)'') (str ''TOTAL ATTIVO'')
     (JObj [(str ''B) Immobilizzazioni'', JArr [JObj [(label_key, JStr (str ''Software'')),
                                                    (amount_key, JNum (PyFloat (5 / 2)))]]),
            (str ''C) Attivo circolante'', JArr []),
            (str ''D) Ratei e risconti'', JArr [JObj [(label_key, JStr (str ''Ratei'')),
                                                    (amount_key, JNum (PyInt 3))]])])
   = Inr [Paragraph (str ''ATTIVO (Assets)'') SectionTitle,
          Paragraph (str ''B) Immobilizzazioni'') SubsectionTitle,
          Table [header_row,
                 [Val (JStr (str ''Software'')), Fmt (PyFloat (5 / 2))],
                 [Text (str ''Subtotal''), Fmt (PyFloat (5 / 2))]] CategoryTable,
          Spacer 1 (3 / 10),
          Paragraph (str ''D) Ratei e risconti'') SubsectionTitle,
          Table [header_row,
                 [Val (JStr (str ''Ratei'')), Fmt (PyInt 3)],
                 [Text (str ''Subtotal''), Fmt (PyInt 3)]] CategoryTable,
          Spacer 1 (3 / 10),
          Table [[Text (str ''TOTAL ATTIVO''), Fmt (PyFloat (11 / 2))]] TotalBanner]"
proof -
  have "section_elements doubles (str ''ATTIVO (Assets)'') (str ''TOTAL ATTIVO'')
     (JObj ([(str ''B) Immobilizzazioni'', JArr [JObj [(label_key, JStr (str ''Software'')),
                                                    (amount_key, JNum (PyFloat (5 / 2)))]])]
            @ [(str ''D) Ratei e risconti'', JArr [JObj [(label_key, JStr (str ''Ratei'')),
                                                    (amount_key, JNum (PyInt 3))]])]))
   = Inr [Paragraph (str ''ATTIVO (Assets)'') SectionTitle,
          Paragraph (str ''B) Immobilizzazioni'') SubsectionTitle,
          Table [header_row,
                 [Val (JStr (str ''Software'')), Fmt (PyFloat (5 / 2))],
                 [Text (str ''Subtotal''), Fmt (PyFloat (5 / 2))]] CategoryTable,
          Spacer 1 (3 / 10),
          Paragraph (str ''D) Ratei e risconti'') SubsectionTitle,
          Table [header_row,
                 [Val (JStr (str ''Ratei'')), Fmt (PyInt 3)],
                 [Text (str ''Subtotal''), Fmt (PyInt 3)]] CategoryTable,
          Spacer 1 (3 / 10),
          Table [[Text (str ''TOTAL ATTIVO''), Fmt (PyFloat (11 / 2))]] TotalBanner]"
    by (simp add: write_to_pdf_defs doubles_defs eval_defs)
  with empty_category_skipped [OF ieee_zero_doubles,
      of "str ''ATTIVO (Assets)''" "str ''TOTAL ATTIVO''"
         "[(str ''B) Immobilizzazioni'', JArr [JObj [(label_key, JStr (str ''Software'')),
                                                    (amount_key, JNum (PyFloat (5 / 2)))]])]"
         "str ''C) Attivo circolante''"
         "[(str ''D) Ratei e risconti'', JArr [JObj [(label_key, JStr (str ''Ratei'')),
                                                    (amount_key, JNum (PyInt 3))]])]"]
    ieee_zero_doubles
  show ?thesis by simp
qed

text \<open>
  C7. For every line item record in any document, a missing label is the empty string
  and a missing amount is 0: \<open>write_to_pdf\<close> gives the same result as for the record with
  that field added with its default; when a report is built, the item's row in its
  category's table has the label (or the empty string) and the amount 0; and a document
  whose only item has neither field is converted, not rejected, whenever the category
  name is a text that \<open>Paragraph\<close> accepts.
\<close>

theorem missing_fields_default:
  "(map_of kvs label_key = None \<longrightarrow>
      write_to_pdf L
        (JObj (s1 @ (key, JObj (cats1 @ (category, JArr (its1 @ JObj kvs # its2)) # cats2)) # s2))
      = write_to_pdf L
        (JObj (s1 @ (key, JObj (cats1 @ (category,
            JArr (its1 @ JObj ((label_key, JStr []) # kvs) # its2)) # cats2)) # s2)))
   \<and> (map_of kvs amount_key = None \<longrightarrow>
      write_to_pdf L
        (JObj (s1 @ (key, JObj (cats1 @ (category, JArr (its1 @ JObj kvs # its2)) # cats2)) # s2))
      = write_to_pdf L
        (JObj (s1 @ (key, JObj (cats1 @ (category,
            JArr (its1 @ JObj ((amount_key, JNum (PyInt 0)) # kvs) # its2)) # cats2)) # s2)))
   \<and> ((key = ATTIVO \<or> key = PASSIVO) \<and> map_of sections key = Some (JObj cats)
        \<and> (category, JArr items) \<in> set cats \<and> i < length items \<and> items ! i = JObj kvs
        \<and> map_of kvs amount_key = None \<and> write_to_pdf L (JObj sections) = Inr els \<longrightarrow>
      (\<exists>rows sub.
          Table (header_row # rows @ [[Text (str ''Subtotal''), sub]]) CategoryTable \<in> set els
        \<and> length rows = length items
        \<and> rows ! i
            = [Val (case map_of kvs label_key of Some v \<Rightarrow> v | None \<Rightarrow> JStr []), Fmt (PyInt 0)]))
   \<and> (paragraph_error L category = None \<and> map_of kvs label_key = None
        \<and> map_of kvs amount_key = None \<longrightarrow>
      write_to_pdf L (JObj [(ATTIVO, JObj [(category, JArr [JObj kvs])])])
      = Inr (title_elements
          @ [Paragraph (str ''ATTIVO (Assets)'') SectionTitle,
             Paragraph category SubsectionTitle,
             Table [header_row,
                    [Val (JStr []), Fmt (PyInt 0)],
                    [Text (str ''Subtotal''), Fmt (PyInt 0)]] CategoryTable,
             Spacer 1 (3 / 10),
             Table [[Text (str ''TOTAL ATTIVO''), Fmt (PyInt 0)]] TotalBanner,
             PageBreak]))"
proof (intro conjI impI)
  assume "map_of kvs label_key = None"
  then have "item_row (JObj kvs) = item_row (JObj ((label_key, JStr []) # kvs))"
    and "item_get (JObj kvs) amount_key (JNum (PyInt 0))
       = item_get (JObj ((label_key, JStr []) # kvs)) amount_key (JNum (PyInt 0))"
    using label_amount_keys by (simp_all add: item_row_def)
  then show "write_to_pdf L
        (JObj (s1 @ (key, JObj (cats1 @ (category, JArr (its1 @ JObj kvs # its2)) # cats2)) # s2))
      = write_to_pdf L
        (JObj (s1 @ (key, JObj (cats1 @ (category,
            JArr (its1 @ JObj ((label_key, JStr []) # kvs) # its2)) # cats2)) # s2))"
    by (rule write_to_pdf_change)
next
  assume "map_of kvs amount_key = None"
  then have "item_row (JObj kvs) = item_row (JObj ((amount_key, JNum (PyInt 0)) # kvs))"
    and "item_get (JObj kvs) amount_key (JNum (PyInt 0))
       = item_get (JObj ((amount_key, JNum (PyInt 0)) # kvs)) amount_key (JNum (PyInt 0))"
    using label_amount_keys by (simp_all add: item_row_def)
  then show "write_to_pdf L
        (JObj (s1 @ (key, JObj (cats1 @ (category, JArr (its1 @ JObj kvs # its2)) # cats2)) # s2))
      = write_to_pdf L
        (JObj (s1 @ (key, JObj (cats1 @ (category,
            JArr (its1 @ JObj ((amount_key, JNum (PyInt 0)) # kvs) # its2)) # cats2)) # s2))"
    by (rule write_to_pdf_change)
next
  assume h: "(key = ATTIVO \<or> key = PASSIVO) \<and> map_of sections key = Some (JObj cats)
        \<and> (category, JArr items) \<in> set cats \<and> i < length items \<and> items ! i = JObj kvs
        \<and> map_of kvs amount_key = None \<and> write_to_pdf L (JObj sections) = Inr els"
  let ?rows = "map (\<lambda>item. [Val (item_label item), Fmt (item_amount item)]) items"
  from h have "items \<noteq> []" by auto
  with h table_in_report [of key sections cats category items L els]
  have "Table (header_row # ?rows @ [[Text (str ''Subtotal''), Fmt (subtotal L (JArr items))]])
          CategoryTable \<in> set els"
    by simp
  moreover from h have "?rows ! i
      = [Val (case map_of kvs label_key of Some v \<Rightarrow> v | None \<Rightarrow> JStr []), Fmt (PyInt 0)]"
    by simp
  ultimately show "\<exists>rows sub.
          Table (header_row # rows @ [[Text (str ''Subtotal''), sub]]) CategoryTable \<in> set els
        \<and> length rows = length items
        \<and> rows ! i
            = [Val (case map_of kvs label_key of Some v \<Rightarrow> v | None \<Rightarrow> JStr []), Fmt (PyInt 0)]"
    by (intro exI [of _ ?rows] exI [of _ "Fmt (subtotal L (JArr items))"]) simp
next
  assume "paragraph_error L category = None \<and> map_of kvs label_key = None
        \<and> map_of kvs amount_key = None"
  then show "write_to_pdf L (JObj [(ATTIVO, JObj [(category, JArr [JObj kvs])])])
      = Inr (title_elements
          @ [Paragraph (str ''ATTIVO (Assets)'') SectionTitle,
             Paragraph category SubsectionTitle,
             Table [header_row,
                    [Val (JStr []), Fmt (PyInt 0)],
                    [Text (str ''Subtotal''), Fmt (PyInt 0)]] CategoryTable,
             Spacer 1 (3 / 10),
             Table [[Text (str ''TOTAL ATTIVO''), Fmt (PyInt 0)]] TotalBanner,
             PageBreak])"
    by (simp add: write_to_pdf_defs category_paragraph_def int_fits_0 eval_defs)
qed

text \<open>
  The document \<^verbatim>\<open>{"ATTIVO": {"A) Crediti": [{}]}}\<close>.
\<close>

theorem missing_fields_default_witness:
  "write_to_pdf doubles (JObj [(ATTIVO, JObj [(str ''A) Crediti'', JArr [JObj []])])])
   = Inr (title_elements
          @ [Paragraph (str ''ATTIVO (Assets)'') SectionTitle,
             Paragraph (str ''A) Crediti'') SubsectionTitle,
             Table [header_row,
                    [Val (JStr []), Fmt (PyInt 0)],
                    [Text (str ''Subtotal''), Fmt (PyInt 0)]] CategoryTable,
             Spacer 1 (3 / 10),
             Table [[Text (str ''TOTAL ATTIVO''), Fmt (PyInt 0)]] TotalBanner,
             PageBreak])
   \<and> write_to_pdf doubles (JObj [(ATTIVO, JObj [(str ''A) Crediti'', JArr [JObj []])])])
     = write_to_pdf doubles
         (JObj [(ATTIVO, JObj [(str ''A) Crediti'', JArr [JObj [(label_key, JStr [])]])])])
   \<and> write_to_pdf doubles (JObj [(ATTIVO, JObj [(str ''A) Crediti'', JArr [JObj []])])])
     = write_to_pdf doubles
         (JObj [(ATTIVO, JObj [(str ''A) Crediti'', JArr [JObj [(amount_key, JNum (PyInt 0))]])])])
   \<and> (\<exists>rows sub.
          Table (header_row # rows @ [[Text (str ''Subtotal''), sub]]) CategoryTable
            \<in> set (title_elements
                    @ [Paragraph (str ''ATTIVO (Assets)'') SectionTitle,
                       Paragraph (str ''A) Crediti'') SubsectionTitle,
                       Table [header_row,
                              [Val (JStr []), Fmt (PyInt 0)],
                              [Text (str ''Subtotal''), Fmt (PyInt 0)]] CategoryTable,
                       Spacer 1 (3 / 10),
                       Table [[Text (str ''TOTAL ATTIVO''), Fmt (PyInt 0)]] TotalBanner,
                       PageBreak] :: real element list)
        \<and> length rows = 1
        \<and> rows ! 0 = [Val (JStr []), Fmt (PyInt 0)])"
proof -
  let ?cat = "(str ''A) Crediti'', JArr [JObj [] :: real json])"
  let ?els = "title_elements
          @ [Paragraph (str ''ATTIVO (Assets)'') SectionTitle,
             Paragraph (str ''A) Crediti'') SubsectionTitle,
             Table [header_row,
                    [Val (JStr []), Fmt (PyInt 0)],
                    [Text (str ''Subtotal''), Fmt (PyInt 0)]] CategoryTable,
             Spacer 1 (3 / 10),
             Table [[Text (str ''TOTAL ATTIVO''), Fmt (PyInt 0)]] TotalBanner,
             PageBreak] :: real element list"
  note t = missing_fields_default
    [where kvs = "[]" and L = doubles and ?s1.0 = "[]" and key = ATTIVO and ?cats1.0 = "[]"
       and category = "str ''A) Crediti''" and ?its1.0 = "[]" and ?its2.0 = "[]"
       and ?cats2.0 = "[]" and ?s2.0 = "[]" and sections = "[(ATTIVO, JObj [?cat])]"
       and cats = "[?cat]" and items = "[JObj []]" and i = 0 and els = ?els]
  have p: "paragraph_error doubles (str ''A) Crediti'') = None"
    by (simp add: doubles_def)
  from t [THEN conjunct2, THEN conjunct2, THEN conjunct2] p
  have w: "write_to_pdf doubles (JObj [(ATTIVO, JObj [?cat])]) = Inr ?els"
    by simp
  from t [THEN conjunct1] have l: "write_to_pdf doubles (JObj [(ATTIVO, JObj [?cat])])
     = write_to_pdf doubles
         (JObj [(ATTIVO, JObj [(str ''A) Crediti'', JArr [JObj [(label_key, JStr [])]])])])"
    by simp
  from t [THEN conjunct2, THEN conjunct1] have a: "write_to_pdf doubles (JObj [(ATTIVO, JObj [?cat])])
     = write_to_pdf doubles
         (JObj [(ATTIVO, JObj [(str ''A) Crediti'', JArr [JObj [(amount_key, JNum (PyInt 0))]])])])"
    by simp
  from t [THEN conjunct2, THEN conjunct2, THEN conjunct1]
  have "write_to_pdf doubles (JObj [(ATTIVO, JObj [?cat])]) = Inr ?els \<longrightarrow>
      (\<exists>rows sub.
          Table (header_row # rows @ [[Text (str ''Subtotal''), sub]]) CategoryTable \<in> set ?els
        \<and> length rows = 1 \<and> rows ! 0 = [Val (JStr []), Fmt (PyInt 0)])"
    by simp
  with w have r: "\<exists>rows sub.
          Table (header_row # rows @ [[Text (str ''Subtotal''), sub]]) CategoryTable \<in> set ?els
        \<and> length rows = 1 \<and> rows ! 0 = [Val (JStr []), Fmt (PyInt 0)]"
    by (rule rev_mp)
  from w l a r show ?thesis by (intro conjI)
qed

text \<open>
  C8. Every report that \<open>write_to_pdf\<close> builds contains exactly one page break: it
  follows the title and whatever the ATTIVO section produced and precedes whatever the
  PASSIVO section produced, whether or not either section is present or empty.
\<close>

theorem one_page_break:
  assumes "write_to_pdf L data_dict = Inr els"
  shows "count_list els PageBreak = 1
    \<and> (\<exists>attivo passivo.
          optional_section L ATTIVO (str ''ATTIVO (Assets)'') (str ''TOTAL ATTIVO'') data_dict
            = Inr attivo
        \<and> optional_section L PASSIVO (str ''PASSIVO (Liabilities & Equity)'') (str ''TOTAL PASSIVO'')
            data_dict = Inr passivo
        \<and> PageBreak \<notin> set attivo \<and> PageBreak \<notin> set passivo
        \<and> els = title_elements @ attivo @ [PageBreak] @ passivo)"
proof -
  from write_to_pdf_InrD [OF assms] obtain attivo passivo where
    d: "optional_section L ATTIVO (str ''ATTIVO (Assets)'') (str ''TOTAL ATTIVO'') data_dict
          = Inr attivo"
       "optional_section L PASSIVO (str ''PASSIVO (Liabilities & Equity)'') (str ''TOTAL PASSIVO'')
          data_dict = Inr passivo"
       "PageBreak \<notin> set attivo" "PageBreak \<notin> set passivo"
       "els = title_elements @ attivo @ [PageBreak] @ passivo"
    by blast
  then have "count_list els PageBreak = 1"
    by (simp add: title_no_break)
  with d show ?thesis by blast
qed

text \<open>
  The empty document, and a document with both sections of two categories of two
  items each.
\<close>

theorem one_page_break_witness:
  "write_to_pdf doubles (JObj []) = Inr (title_elements @ [PageBreak])
   \<and> count_list (title_elements @ [PageBreak] :: real element list) PageBreak = 1
   \<and> (\<exists>els. write_to_pdf doubles (JObj
        [(ATTIVO, JObj
           [(str ''B) Immobilizzazioni'',
               JArr [JObj [(label_key, JStr (str ''Software'')), (amount_key, JNum (PyInt 3000))],
                     JObj [(label_key, JStr (str ''Impianti'')), (amount_key, JNum (PyInt 7000))]]),
            (str ''C) Attivo circolante'',
               JArr [JObj [(label_key, JStr (str ''Crediti'')), (amount_key, JNum (PyFloat (3 / 2)))],
                     JObj [(label_key, JStr (str ''Cassa'')), (amount_key, JNum (PyInt 500))]])]),
         (PASSIVO, JObj
           [(str ''A) Patrimonio netto'',
               JArr [JObj [(label_key, JStr (str ''Capitale'')), (amount_key, JNum (PyInt 10000))],
                     JObj [(label_key, JStr (str ''Perdita'')), (amount_key, JNum (PyInt (- 1000)))]]),
            (str ''D) Debiti'',
               JArr [JObj [(label_key, JStr (str ''Fornitori'')), (amount_key, JNum (PyInt 2000))],
                     JObj [(label_key, JStr (str ''Banche'')), (amount_key, JNum (PyFloat (1 / 2)))]])])])
        = Inr els \<and> count_list els PageBreak = 1)"
proof -
  let ?doc = "JObj
        [(ATTIVO, JObj
           [(str ''B) Immobilizzazioni'',
               JArr [JObj [(label_key, JStr (str ''Software'')), (amount_key, JNum (PyInt 3000))],
                     JObj [(label_key, JStr (str ''Impianti'')), (amount_key, JNum (PyInt 7000))]]),
            (str ''C) Attivo circolante'',
               JArr [JObj [(label_key, JStr (str ''Crediti'')), (amount_key, JNum (PyFloat (3 / 2)))],
                     JObj [(label_key, JStr (str ''Cassa'')), (amount_key, JNum (PyInt 500))]])]),
         (PASSIVO, JObj
           [(str ''A) Patrimonio netto'',
               JArr [JObj [(label_key, JStr (str ''Capitale'')), (amount_key, JNum (PyInt 10000))],
                     JObj [(label_key, JStr (str ''Perdita'')), (amount_key, JNum (PyInt (- 1000)))]]),
            (str ''D) Debiti'',
               JArr [JObj [(label_key, JStr (str ''Fornitori'')), (amount_key, JNum (PyInt 2000))],
                     JObj [(label_key, JStr (str ''Banche'')), (amount_key, JNum (PyFloat (1 / 2)))]])])]"
  have e: "write_to_pdf doubles (JObj []) = Inr (title_elements @ [PageBreak])"
    by (simp add: write_to_pdf_def optional_section_def)
  have "\<exists>els. write_to_pdf doubles ?doc = Inr els"
    by (simp add: write_to_pdf_defs doubles_defs eval_defs)
  then obtain els where d: "write_to_pdf doubles ?doc = Inr els" by blast
  from e one_page_break [OF e] one_page_break [OF d] d show ?thesis by blast
qed

text \<open>
  C10. Section keys are matched exactly: the report of a mapping consists of the title
  (the title paragraph and its spacer) and the page break alone if and only if neither
  \<open>"ATTIVO"\<close> nor \<open>"PASSIVO"\<close> is among its keys.
\<close>

theorem section_keys_exact:
  "write_to_pdf L (JObj sections) = Inr (title_elements @ [PageBreak])
   \<longleftrightarrow> ATTIVO \<notin> fst ` set sections \<and> PASSIVO \<notin> fst ` set sections"
proof
  assume w: "write_to_pdf L (JObj sections) = Inr (title_elements @ [PageBreak])"
  from write_to_pdf_InrD [OF w] obtain attivo passivo where
    a: "optional_section L ATTIVO (str ''ATTIVO (Assets)'') (str ''TOTAL ATTIVO'') (JObj sections)
          = Inr attivo"
    and p: "optional_section L PASSIVO (str ''PASSIVO (Liabilities & Equity)'') (str ''TOTAL PASSIVO'')
          (JObj sections) = Inr passivo"
    and na: "PageBreak \<notin> set attivo"
    and els: "title_elements @ [PageBreak] = title_elements @ attivo @ [PageBreak] @ passivo"
    by blast
  from els have "attivo @ PageBreak # passivo = [PageBreak]" by simp
  with na have "attivo = [] \<and> passivo = []" by (cases attivo) auto
  with a p show "ATTIVO \<notin> fst ` set sections \<and> PASSIVO \<notin> fst ` set sections"
    by (simp add: optional_section_empty)
next
  assume "ATTIVO \<notin> fst ` set sections \<and> PASSIVO \<notin> fst ` set sections"
  then have "optional_section L ATTIVO title total_label (JObj sections) = Inr []"
    and "optional_section L PASSIVO title total_label (JObj sections) = Inr []"
    for title total_label
    by (simp_all add: optional_section_empty)
  then show "write_to_pdf L (JObj sections) = Inr (title_elements @ [PageBreak])"
    by (simp add: write_to_pdf_def)
qed

text \<open>
  Keys in other spellings produce no section content.
\<close>

theorem section_keys_exact_witness:
  "write_to_pdf doubles (JObj
     [(str ''attivo'', JObj [(str ''B) Software'', JArr [JObj [(amount_key, JNum (PyInt 10))]])]),
      (str ''Assets'', JObj [(str ''Cash'', JArr [JObj [(amount_key, JNum (PyInt 20))]])]),
      (str ''Passivo'', JNull)])
   = Inr (title_elements @ [PageBreak])"
  using section_keys_exact [of doubles
     "[(str ''attivo'', JObj [(str ''B) Software'', JArr [JObj [(amount_key, JNum (PyInt 10))]])]),
      (str ''Assets'', JObj [(str ''Cash'', JArr [JObj [(amount_key, JNum (PyInt 20))]])]),
      (str ''Passivo'', JNull)]"]
  by (simp add: eval_defs)

end
